theory Spec2Isabelle
  imports Complex_Main "HOL-Library.Char_ord" "HOL-Library.List_Lexorder"
begin

section \<open>JavaScript primitives used by FlowCanvas and FlowPanel\<close>

text \<open>
  A value that is either \<^verbatim>\<open>null\<close> or a string is a \<open>string option\<close>.  The conditions
  \<^verbatim>\<open>x ? a : b\<close> and \<^verbatim>\<open>!x\<close> of the source test JavaScript truthiness: \<^verbatim>\<open>null\<close> and the empty
  string are falsy, every other string is truthy.
\<close>

definition truthy :: "string option \<Rightarrow> bool" where
  "truthy v = (case v of None \<Rightarrow> False | Some s \<Rightarrow> s \<noteq> [])"

text \<open>\<^verbatim>\<open>Array.prototype.findIndex\<close>: the first index whose element satisfies the
  predicate, \<open>-1\<close> when there is none.\<close>

fun findIndex :: "('a \<Rightarrow> bool) \<Rightarrow> 'a list \<Rightarrow> int" where
  "findIndex p [] = - 1"
| "findIndex p (x # xs) =
     (if p x then 0 else (let r = findIndex p xs in if r < 0 then - 1 else r + 1))"

text \<open>\<^verbatim>\<open>Array.prototype.slice(start, end)\<close> with both arguments given: a negative
  argument counts from the end of the array, both are cut to the array's bounds, and the
  result is empty when the cut start is not below the cut end.\<close>

definition slice :: "int \<Rightarrow> int \<Rightarrow> 'a list \<Rightarrow> 'a list" where
  "slice start end xs =
     (let len = int (length xs);
          k = (if start < 0 then max (len + start) 0 else min start len);
          final = (if end < 0 then max (len + end) 0 else min end len)
      in take (nat (max (final - k) 0)) (drop (nat k) xs))"

text \<open>An array read \<^verbatim>\<open>xs[i]\<close>, which gives \<^verbatim>\<open>undefined\<close> out of range.\<close>

definition at_index :: "'a list \<Rightarrow> int \<Rightarrow> 'a option" where
  "at_index xs i = (if 0 \<le> i \<and> i < int (length xs) then Some (xs ! nat i) else None)"

section \<open>The canvas state: nodes, test scope, execution path, path highlights\<close>

text \<open>A node of the flow.  Only the fields the scope and highlight code reads are kept
  (\<^verbatim>\<open>id\<close> and \<^verbatim>\<open>type\<close>); title, subtitle, icon and badge are display data.\<close>

record node =
  node_id :: string
  node_type :: string

text \<open>The status of a scenario highlight, documented in the source as
  \<^verbatim>\<open>'passed'|'failed'|'error'|'not-run'\<close>.\<close>

datatype status = Passed | Failed | Error | NotRun

fun status_name :: "status \<Rightarrow> string" where
  "status_name Passed = ''passed''"
| "status_name Failed = ''failed''"
| "status_name Error = ''error''"
| "status_name NotRun = ''not-run''"

record highlight =
  status :: status
  connectors :: "int list"

text \<open>The fields of a \<^verbatim>\<open>FlowCanvas\<close> instance that the scope and highlight methods read
  and write.  \<^verbatim>\<open>pathHighlights\<close> is a JavaScript object keyed by scenario id, kept as the
  list of its own properties in enumeration order.\<close>

record canvas =
  nodes :: "node list"
  testStartPoint :: "string option"
  testEndPoint :: "string option"
  executionPath :: "int list"
  pathHighlights :: "(string \<times> highlight) list"

definition getDefaultNodes :: "node list" where
  "getDefaultNodes =
     [\<lparr>node_id = ''start'', node_type = ''start''\<rparr>,
      \<lparr>node_id = ''create-task'', node_type = ''create''\<rparr>,
      \<lparr>node_id = ''update-case'', node_type = ''update''\<rparr>,
      \<lparr>node_id = ''send-email'', node_type = ''action''\<rparr>,
      \<lparr>node_id = ''end'', node_type = ''end''\<rparr>]"

text \<open>The state the constructor leaves: the given nodes, no bound, no highlight.\<close>

definition new_canvas :: "node list \<Rightarrow> canvas" where
  "new_canvas ns =
     \<lparr>nodes = ns, testStartPoint = None, testEndPoint = None,
      executionPath = [], pathHighlights = []\<rparr>"

subsection \<open>Scope operations\<close>

definition clearExecutionPath :: "canvas \<Rightarrow> canvas" where
  "clearExecutionPath c = c\<lparr>executionPath := [], pathHighlights := []\<rparr>"

text \<open>\<^verbatim>\<open>handleStartEndPointChange\<close> clears the execution path and the highlights; its
  switch of the run-result tab touches no field of the canvas.\<close>

definition handleStartEndPointChange :: "canvas \<Rightarrow> canvas" where
  "handleStartEndPointChange c = clearExecutionPath c"

definition setTestStartPoint :: "string \<Rightarrow> canvas \<Rightarrow> canvas" where
  "setTestStartPoint nodeId c = (handleStartEndPointChange c)\<lparr>testStartPoint := Some nodeId\<rparr>"

definition setTestEndPoint :: "string \<Rightarrow> canvas \<Rightarrow> canvas" where
  "setTestEndPoint nodeId c = (handleStartEndPointChange c)\<lparr>testEndPoint := Some nodeId\<rparr>"

definition removeTestStartPoint :: "canvas \<Rightarrow> canvas" where
  "removeTestStartPoint c = (handleStartEndPointChange c)\<lparr>testStartPoint := None\<rparr>"

definition removeTestEndPoint :: "string \<Rightarrow> canvas \<Rightarrow> canvas" where
  "removeTestEndPoint nodeId c = (handleStartEndPointChange c)\<lparr>testEndPoint := None\<rparr>"

definition clearTestStartPoint :: "canvas \<Rightarrow> canvas" where
  "clearTestStartPoint c = c\<lparr>testStartPoint := None\<rparr>"

definition clearTestEndPoint :: "canvas \<Rightarrow> canvas" where
  "clearTestEndPoint c = c\<lparr>testEndPoint := None\<rparr>"

text \<open>\<^verbatim>\<open>getTestScope\<close> reads the state and writes nothing.\<close>

definition getTestScope :: "canvas \<Rightarrow> string list" where
  "getTestScope c =
     (if \<not> truthy (testStartPoint c) \<and> \<not> truthy (testEndPoint c)
      then map node_id (nodes c)
      else
        let startIndex =
              (if truthy (testStartPoint c)
               then findIndex (\<lambda>n. Some (node_id n) = testStartPoint c) (nodes c) else 0);
            endIndex =
              (if truthy (testEndPoint c)
               then findIndex (\<lambda>n. Some (node_id n) = testEndPoint c) (nodes c)
               else int (length (nodes c)) - 1)
        in map node_id (slice startIndex (endIndex + 1) (nodes c)))"

subsection \<open>The scope algorithm in the words of the specification\<close>

text \<open>\<open>indexOf\<close> of an id present in the graph: the number of nodes before its first
  occurrence.\<close>

definition spec_indexOf :: "node list \<Rightarrow> string \<Rightarrow> nat" where
  "spec_indexOf ns i = length (takeWhile (\<lambda>n. node_id n \<noteq> i) ns)"

text \<open>The inclusive slice \<open>[a, b]\<close> of a sequence: its elements at the positions
  \<open>a, a + 1, \<dots>, b\<close>.\<close>

definition spec_inclusive_slice :: "nat \<Rightarrow> nat \<Rightarrow> 'a list \<Rightarrow> 'a list" where
  "spec_inclusive_slice a b xs = map (\<lambda>k. xs ! k) [a ..< Suc b]"

definition spec_scopeNodeIds :: "canvas \<Rightarrow> string list" where
  "spec_scopeNodeIds c =
     (let ids = map node_id (nodes c) in
      if \<not> truthy (testStartPoint c) \<and> \<not> truthy (testEndPoint c) then ids
      else spec_inclusive_slice
             (if truthy (testStartPoint c)
              then spec_indexOf (nodes c) (the (testStartPoint c)) else 0)
             (if truthy (testEndPoint c)
              then spec_indexOf (nodes c) (the (testEndPoint c)) else length ids - 1)
             ids)"

text \<open>A bound references an existing node when it is unset or the id of a node.\<close>

definition references_node :: "canvas \<Rightarrow> string option \<Rightarrow> bool" where
  "references_node c b = (case b of None \<Rightarrow> True | Some i \<Rightarrow> i \<in> set (map node_id (nodes c)))"

section \<open>Connectors, execution path and path highlights\<close>

subsection \<open>The rendered connectors\<close>

text \<open>
  \<^verbatim>\<open>renderNodes\<close> puts one connector element after every node but the last, and
  \<^verbatim>\<open>renderConnector\<close> gives it at most one badge: the start badge when the node below is the
  start point, otherwise the end badge when the node above is the end point.  The methods
  below find the bounds by reading the \<^verbatim>\<open>data-badge-type\<close> attributes back from these
  elements.  Every method that changes the nodes or a bound re-renders the connectors
  before it returns, so the attributes read are those of the current state.
\<close>

datatype badge = StartBadge | EndBadge

definition renderConnector :: "canvas \<Rightarrow> int \<Rightarrow> badge option" where
  "renderConnector c index =
     (let nodeAfterConnector = at_index (nodes c) (index + 1);
          nodeBeforeConnector = at_index (nodes c) index;
          isStartPoint = (case nodeAfterConnector of None \<Rightarrow> False
                          | Some n \<Rightarrow> testStartPoint c = Some (node_id n));
          isEndPoint = (case nodeBeforeConnector of None \<Rightarrow> False
                        | Some n \<Rightarrow> testEndPoint c = Some (node_id n))
      in if isStartPoint then Some StartBadge
         else if isEndPoint then Some EndBadge else None)"

definition flow_connectors :: "canvas \<Rightarrow> badge option list" where
  "flow_connectors c = map (\<lambda>i. renderConnector c (int i)) [0 ..< length (nodes c) - 1]"

text \<open>The \<^verbatim>\<open>forEach\<close> that looks for the badges: the last connector with a start badge and
  the last one with an end badge, \<open>-1\<close> for a badge that is nowhere.\<close>

fun scan_badges :: "int \<Rightarrow> badge option list \<Rightarrow> int \<times> int \<Rightarrow> int \<times> int" where
  "scan_badges index [] acc = acc"
| "scan_badges index (badgeType # rest) (startConnectorIndex, endConnectorIndex) =
     scan_badges (index + 1) rest
       (if badgeType = Some StartBadge then (index, endConnectorIndex)
        else if badgeType = Some EndBadge then (startConnectorIndex, index)
        else (startConnectorIndex, endConnectorIndex))"

definition startConnectorIndex :: "canvas \<Rightarrow> int" where
  "startConnectorIndex c = fst (scan_badges 0 (flow_connectors c) (- 1, - 1))"

definition endConnectorIndex :: "canvas \<Rightarrow> int" where
  "endConnectorIndex c = snd (scan_badges 0 (flow_connectors c) (- 1, - 1))"

subsection \<open>The legacy execution path\<close>

text \<open>The loops of \<^verbatim>\<open>setExecutionPath\<close> that push the indices \<open>lo, \<dots>, hi - 1\<close> not yet in
  the path, leaving out the connector with the end badge.\<close>

definition push_missing :: "int \<Rightarrow> int \<Rightarrow> int \<Rightarrow> int list \<Rightarrow> int list" where
  "push_missing lo hi endIdx path =
     fold (\<lambda>i p. if i \<noteq> endIdx \<and> i \<notin> set p then p @ [i] else p) [lo .. hi - 1] path"

definition setExecutionPath :: "int list \<Rightarrow> canvas \<Rightarrow> canvas" where
  "setExecutionPath connectorIndices c =
     (if connectorIndices \<noteq> [] then
        let s = startConnectorIndex c;
            e = endConnectorIndex c;
            p1 = (if 0 \<le> s
                  then push_missing (s + 1)
                         (if 0 \<le> e then e else int (length (flow_connectors c))) e
                         connectorIndices
                  else connectorIndices);
            p2 = (if 0 \<le> e \<and> s < 0 then push_missing 0 e e p1 else p1);
            p3 = (if 0 \<le> e then filter (\<lambda>index. index \<noteq> e) p2 else p2);
            p4 = (if 0 \<le> e then filter (\<lambda>index. index < e) p3 else p3)
        in c\<lparr>executionPath := p4\<rparr>
      else c\<lparr>executionPath := connectorIndices\<rparr>)"

subsection \<open>Scenario highlights\<close>

text \<open>An element of the array given to \<^verbatim>\<open>setPathHighlights\<close>; each property may be
  missing.\<close>

record scenario_highlight =
  scenarioId :: "string option"
  status_in :: "status option"
  connectors_in :: "int list option"

text \<open>
  Assignment to and deletion of a property of a JavaScript object, the object kept as the
  list of its own properties in the order in which \<^verbatim>\<open>Object.entries\<close> and \<^verbatim>\<open>Object.keys\<close>
  enumerate them: first the keys that are array indices (the decimal numerals of the
  integers from 0 to \<open>2\<^sup>3\<^sup>2 - 2\<close>, without leading zeros) in ascending numeric order, then
  the other keys in the order of their creation.  An assignment to an existing key keeps
  its place.  An assignment of an object to the key \<^verbatim>\<open>__proto__\<close> sets the prototype and
  creates no property.
\<close>

definition is_digit :: "char \<Rightarrow> bool" where
  "is_digit ch = (CHR ''0'' \<le> ch \<and> ch \<le> CHR ''9'')"

definition decimal :: "string \<Rightarrow> int" where
  "decimal k = fold (\<lambda>ch n. 10 * n + (of_char ch - 48)) k 0"

definition array_index :: "string \<Rightarrow> int option" where
  "array_index k =
     (if k \<noteq> [] \<and> list_all is_digit k \<and> (hd k \<noteq> CHR ''0'' \<or> k = ''0'')
         \<and> length k \<le> 10 \<and> decimal k \<le> 4294967294
      then Some (decimal k) else None)"

definition enumerated_before :: "string \<Rightarrow> string \<Rightarrow> bool" where
  "enumerated_before k k' =
     (case array_index k of
        None \<Rightarrow> False
      | Some n \<Rightarrow> (case array_index k' of None \<Rightarrow> True | Some m \<Rightarrow> n < m))"

fun obj_replace :: "string \<Rightarrow> 'v \<Rightarrow> (string \<times> 'v) list \<Rightarrow> (string \<times> 'v) list" where
  "obj_replace k v [] = []"
| "obj_replace k v (p # ps) = (if fst p = k then (k, v) # ps else p # obj_replace k v ps)"

fun obj_insert :: "string \<Rightarrow> 'v \<Rightarrow> (string \<times> 'v) list \<Rightarrow> (string \<times> 'v) list" where
  "obj_insert k v [] = [(k, v)]"
| "obj_insert k v (p # ps) =
     (if enumerated_before k (fst p) then (k, v) # p # ps else p # obj_insert k v ps)"

definition obj_put :: "string \<Rightarrow> 'v \<Rightarrow> (string \<times> 'v) list \<Rightarrow> (string \<times> 'v) list" where
  "obj_put k v obj =
     (if k = ''__proto__'' then obj
      else if k \<in> set (map fst obj) then obj_replace k v obj
      else obj_insert k v obj)"

definition obj_delete :: "string \<Rightarrow> (string \<times> 'v) list \<Rightarrow> (string \<times> 'v) list" where
  "obj_delete k ps = filter (\<lambda>p. fst p \<noteq> k) ps"

definition filterConnectorsByTestScope :: "canvas \<Rightarrow> int list \<Rightarrow> int list" where
  "filterConnectorsByTestScope c connectorIndices =
     (let s = startConnectorIndex c;
          e = endConnectorIndex c;
          filtered1 = (if 0 \<le> s then filter (\<lambda>index. s \<le> index) connectorIndices
                       else connectorIndices)
      in if 0 \<le> e then filter (\<lambda>index. index \<le> e) filtered1 else filtered1)"

definition put_highlight ::
  "canvas \<Rightarrow> scenario_highlight \<Rightarrow> (string \<times> highlight) list \<Rightarrow> (string \<times> highlight) list"
where
  "put_highlight c h obj =
     (case (scenarioId h, connectors_in h) of
        (Some sid, Some (k # ks)) \<Rightarrow>
          if sid \<noteq> [] then
            obj_put sid
              \<lparr>status = (case status_in h of Some st \<Rightarrow> st | None \<Rightarrow> NotRun),
               connectors = filterConnectorsByTestScope c (k # ks)\<rparr> obj
          else obj
      | _ \<Rightarrow> obj)"

definition setPathHighlights :: "scenario_highlight list \<Rightarrow> canvas \<Rightarrow> canvas" where
  "setPathHighlights scenarioHighlights c =
     c\<lparr>pathHighlights := fold (put_highlight c) scenarioHighlights []\<rparr>"

definition clearPathHighlights :: "string list option \<Rightarrow> canvas \<Rightarrow> canvas" where
  "clearPathHighlights scenarioIds c =
     (case scenarioIds of
        None \<Rightarrow> c\<lparr>pathHighlights := []\<rparr>
      | Some ids \<Rightarrow> c\<lparr>pathHighlights := fold obj_delete ids (pathHighlights c)\<rparr>)"

subsection \<open>Styling the connector lines\<close>

text \<open>
  The path-highlight part of a connector line: its highlight classes, in the order they
  were added, and its \<^verbatim>\<open>data-path-statuses\<close> attribute.  \<^verbatim>\<open>clearPathHighlightStyles\<close>
  removes all of them, and \<^verbatim>\<open>applyPathHighlightStyles\<close> starts with that.
\<close>

record line =
  classList :: "string list"
  pathStatuses :: "string option"

definition clearPathHighlightStyles :: line where
  "clearPathHighlightStyles = \<lparr>classList = [], pathStatuses = None\<rparr>"

definition status_class :: "status \<Rightarrow> string" where
  "status_class st = ''flow-connector-line-'' @ status_name st"

text \<open>\<^verbatim>\<open>[...new Set(xs)]\<close>: the distinct elements in the order of their first
  occurrence.\<close>

fun uniq :: "'a list \<Rightarrow> 'a list" where
  "uniq [] = []"
| "uniq (x # xs) = x # filter (\<lambda>y. y \<noteq> x) (uniq xs)"

fun join_comma :: "string list \<Rightarrow> string" where
  "join_comma [] = []"
| "join_comma [x] = x"
| "join_comma (x # y # ys) = x @ '','' @ join_comma (y # ys)"

definition applyPathHighlightStyles :: "status list \<Rightarrow> bool \<Rightarrow> line" where
  "applyPathHighlightStyles statuses hasLegacyExecuted =
     (if statuses \<noteq> [] then
        let uniqueStatuses = uniq statuses in
        if length uniqueStatuses = 1
        then \<lparr>classList = [status_class (hd uniqueStatuses)], pathStatuses = None\<rparr>
        else \<lparr>classList = ''flow-connector-line-multi'' # map status_class uniqueStatuses,
              pathStatuses = Some (join_comma (sort (map status_name uniqueStatuses)))\<rparr>
      else if hasLegacyExecuted
      then \<lparr>classList = [''flow-connector-line-executed''], pathStatuses = None\<rparr>
      else clearPathHighlightStyles)"

text \<open>\<^verbatim>\<open>connectorStatusMap[index]\<close>: the statuses of the highlights, in the order of the
  object's entries, once for every occurrence of the index among a highlight's connectors.\<close>

definition connectorStatusMap :: "canvas \<Rightarrow> int \<Rightarrow> status list" where
  "connectorStatusMap c index =
     concat (map (\<lambda>(scenarioId, h).
                    map (\<lambda>connectorIndex. status h)
                        (filter (\<lambda>connectorIndex. connectorIndex = index) (connectors h)))
                 (pathHighlights c))"

text \<open>A connector element after styling: a connector without badge has one line, a
  connector with a badge has a line above and a line below the badge.\<close>

datatype connector_el = Plain line | Badged badge line line

definition style_connector :: "canvas \<Rightarrow> int \<Rightarrow> badge option \<Rightarrow> connector_el" where
  "style_connector c index badgeType =
     (let hasLegacyPath = (executionPath c \<noteq> []);
          e = endConnectorIndex c;
          isAfterEnd = (0 \<le> e \<and> e < index);
          isLegacyExecuted = (\<not> isAfterEnd \<and> hasLegacyPath \<and> index \<in> set (executionPath c));
          statuses = connectorStatusMap c index
      in case badgeType of
           Some StartBadge \<Rightarrow>
             Badged StartBadge clearPathHighlightStyles
               (applyPathHighlightStyles statuses (isLegacyExecuted \<and> hasLegacyPath))
         | Some EndBadge \<Rightarrow>
             Badged EndBadge
               (applyPathHighlightStyles statuses (isLegacyExecuted \<and> hasLegacyPath))
               clearPathHighlightStyles
         | None \<Rightarrow>
             Plain (if isAfterEnd then clearPathHighlightStyles
                    else applyPathHighlightStyles statuses (isLegacyExecuted \<and> hasLegacyPath)))"

definition updateConnectorStyles :: "canvas \<Rightarrow> connector_el list" where
  "updateConnectorStyles c =
     map (\<lambda>i. style_connector c (int i) (flow_connectors c ! i))
         [0 ..< length (flow_connectors c)]"

text \<open>The line of a connector that can carry a highlight: the single line, the line below
  a start badge, the line above an end badge; and the lines of a connector.\<close>

fun active_line :: "connector_el \<Rightarrow> line" where
  "active_line (Plain l) = l"
| "active_line (Badged StartBadge lineAbove lineBelow) = lineBelow"
| "active_line (Badged EndBadge lineAbove lineBelow) = lineAbove"

fun lines_of :: "connector_el \<Rightarrow> line list" where
  "lines_of (Plain l) = [l]"
| "lines_of (Badged b lineAbove lineBelow) = [lineAbove, lineBelow]"

text \<open>The scenario statuses a line shows, and the statuses of the highlights that touch a
  connector.\<close>

definition line_statuses :: "line \<Rightarrow> status set" where
  "line_statuses l = {st. status_class st \<in> set (classList l)}"

definition touching :: "canvas \<Rightarrow> int \<Rightarrow> status set" where
  "touching c index =
     {status h | scenarioId h. (scenarioId, h) \<in> set (pathHighlights c)
                               \<and> index \<in> set (connectors h)}"

subsection \<open>Sequences of operations on the scope and the highlights\<close>

datatype canvas_op =
    SetExecutionPath "int list"
  | SetPathHighlights "scenario_highlight list"
  | ClearPathHighlights "string list option"
  | ClearExecutionPath
  | SetTestStartPoint string
  | SetTestEndPoint string
  | RemoveTestStartPoint
  | RemoveTestEndPoint string
  | ClearTestStartPoint
  | ClearTestEndPoint

fun canvas_step :: "canvas_op \<Rightarrow> canvas \<Rightarrow> canvas" where
  "canvas_step (SetExecutionPath xs) c = setExecutionPath xs c"
| "canvas_step (SetPathHighlights hs) c = setPathHighlights hs c"
| "canvas_step (ClearPathHighlights ids) c = clearPathHighlights ids c"
| "canvas_step ClearExecutionPath c = clearExecutionPath c"
| "canvas_step (SetTestStartPoint n) c = setTestStartPoint n c"
| "canvas_step (SetTestEndPoint n) c = setTestEndPoint n c"
| "canvas_step RemoveTestStartPoint c = removeTestStartPoint c"
| "canvas_step (RemoveTestEndPoint n) c = removeTestEndPoint n c"
| "canvas_step ClearTestStartPoint c = clearTestStartPoint c"
| "canvas_step ClearTestEndPoint c = clearTestEndPoint c"

fun run_canvas :: "canvas_op list \<Rightarrow> canvas \<Rightarrow> canvas" where
  "run_canvas [] c = c"
| "run_canvas (x # xs) c = run_canvas xs (canvas_step x c)"

text \<open>The start point is the node right after the end point: the connector between them
  would carry both badges, and \<^verbatim>\<open>renderConnector\<close> gives it the start badge only.\<close>

definition shadowed :: "canvas \<Rightarrow> bool" where
  "shadowed c =
     list_ex (\<lambda>i. testStartPoint c = Some (node_id (nodes c ! Suc i))
                  \<and> testEndPoint c = Some (node_id (nodes c ! i)))
             [0 ..< length (nodes c) - 1]"

fun never_shadowed :: "canvas_op list \<Rightarrow> canvas \<Rightarrow> bool" where
  "never_shadowed [] c = (\<not> shadowed c)"
| "never_shadowed (x # xs) c = (\<not> shadowed c \<and> never_shadowed xs (canvas_step x c))"

text \<open>With an end badge rendered, the execution path lies strictly before it and no
  highlight reaches beyond it.\<close>

definition scope_inv :: "canvas \<Rightarrow> bool" where
  "scope_inv c =
     (0 \<le> endConnectorIndex c \<longrightarrow>
        (\<forall>i\<in>set (executionPath c). i < endConnectorIndex c)
        \<and> (\<forall>p\<in>set (pathHighlights c). \<forall>k\<in>set (connectors (snd p)). k \<le> endConnectorIndex c))"

text \<open>A scenario highlight with all its properties present.\<close>

definition scenario :: "string \<Rightarrow> status \<Rightarrow> int list \<Rightarrow> scenario_highlight" where
  "scenario sid st ks = \<lparr>scenarioId = Some sid, status_in = Some st, connectors_in = Some ks\<rparr>"

subsection \<open>The menu action that sets the end point\<close>

text \<open>
  The branch of the click handler for a menu item with \<^verbatim>\<open>data-action="set-end-point"\<close>.
  \<open>disabled\<close> says whether the clicked item carries the class \<^verbatim>\<open>slds-is-disabled\<close> or
  \<^verbatim>\<open>aria-disabled="true"\<close>; \<open>nodeId\<close> is the item's \<^verbatim>\<open>data-node-id\<close>.  The handler treats a
  click as a menu action only if \<^verbatim>\<open>data-node-id\<close> is not empty; otherwise the click ends in
  the branch for clicks inside the menu, which changes nothing.
\<close>

definition menu_set_end_point :: "bool \<Rightarrow> string \<Rightarrow> canvas \<Rightarrow> canvas" where
  "menu_set_end_point disabled nodeId c =
     (if nodeId = [] then c
      else if disabled then c
      else
        let currentNodeIndex = findIndex (\<lambda>n. node_id n = nodeId) (nodes c) in
        if 0 \<le> currentNodeIndex \<and> currentNodeIndex < int (length (nodes c)) - 1
        then
          (case at_index (nodes c) (currentNodeIndex + 1) of
             Some nextNode \<Rightarrow>
               if node_type nextNode = ''end'' then c
               else if truthy (testEndPoint c)
                 then
                   (let endPointIndex =
                          findIndex (\<lambda>n. Some (node_id n) = testEndPoint c) (nodes c)
                    in if 0 \<le> endPointIndex \<and> currentNodeIndex + 1 = endPointIndex then c
                       else setTestEndPoint nodeId c)
                 else setTestEndPoint nodeId c
           | None \<Rightarrow>
               if truthy (testEndPoint c)
                 then
                   (let endPointIndex =
                          findIndex (\<lambda>n. Some (node_id n) = testEndPoint c) (nodes c)
                    in if 0 \<le> endPointIndex \<and> currentNodeIndex + 1 = endPointIndex then c
                       else setTestEndPoint nodeId c)
                 else setTestEndPoint nodeId c)
        else setTestEndPoint nodeId c)"

section \<open>Resizing a side panel by dragging\<close>

text \<open>
  The \<^verbatim>\<open>mousemove\<close> handler that \<^verbatim>\<open>FlowPanel.attachDragListener\<close> installs.  Pixel values
  are exact reals.  The handler reads the drag state kept in the closure, the pointer
  position, the window width, the left edge of the panel being dragged and, when the other
  panel's container exists, its \<^verbatim>\<open>flow-panel-open\<close> class, bounding rectangle and
  \<^verbatim>\<open>offsetWidth\<close>.  It writes the width of the panel being dragged and, in one branch, the
  width of the other panel.
\<close>

datatype position = PanelLeft | PanelRight

record drag =
  isDragging :: bool
  startX :: real
  startWidth :: real

record other_panel =
  hasOpenClass :: bool
  otherRectLeft :: real
  otherRectWidth :: real
  otherOffsetWidth :: real

record mouse_move =
  clientX :: real
  innerWidth :: real
  thisRectLeft :: real
  otherPanelContainer :: "other_panel option"

record widths =
  thisWidth :: real
  otherWidth :: "real option"

definition minWidth :: real where "minWidth = 400"
definition gapBetweenPanels :: real where "gapBetweenPanels = 100"
definition otherPanelMinWidth :: real where "otherPanelMinWidth = 400"

text \<open>The width after the first clamp, \<^verbatim>\<open>Math.max(minWidth, Math.min(maxWidth, newWidth))\<close>.\<close>

definition candidate :: "position \<Rightarrow> drag \<Rightarrow> mouse_move \<Rightarrow> real" where
  "candidate pos d e =
     (let maxWidth = innerWidth e * 0.8;
          deltaX = (if pos = PanelLeft then clientX e - startX d else startX d - clientX e);
          newWidth = startWidth d + deltaX
      in max minWidth (min maxWidth newWidth))"

text \<open>The gap check against an open other panel: the width for the panel being dragged
  and the new width of the other panel, if it is resized.\<close>

definition enforce_gap :: "position \<Rightarrow> mouse_move \<Rightarrow> other_panel \<Rightarrow> real \<Rightarrow> real \<times> real option" where
  "enforce_gap pos e other newWidth =
     (if pos = PanelLeft then
        let thisPanelRight = thisRectLeft e + newWidth;
            maxRightEdgeWithGap = otherRectLeft other - gapBetweenPanels
        in if maxRightEdgeWithGap < thisPanelRight then
             let overlap = thisPanelRight - maxRightEdgeWithGap;
                 otherPanelNewWidth = otherOffsetWidth other - overlap
             in if otherPanelMinWidth \<le> otherPanelNewWidth
                then (newWidth, Some otherPanelNewWidth)
                else
                  let otherPanelAtMinLeft = innerWidth e - otherPanelMinWidth;
                      maxAllowedRightWithMinOther = otherPanelAtMinLeft - gapBetweenPanels
                  in (min newWidth (maxAllowedRightWithMinOther - thisRectLeft e), None)
           else (newWidth, None)
      else
        let otherPanelRight = otherRectLeft other + otherRectWidth other;
            minLeftEdgeWithGap = otherPanelRight + gapBetweenPanels;
            thisPanelLeft = innerWidth e - newWidth
        in if thisPanelLeft < minLeftEdgeWithGap then
             let overlap = minLeftEdgeWithGap - thisPanelLeft;
                 otherPanelNewWidth = otherOffsetWidth other - overlap
             in if otherPanelMinWidth \<le> otherPanelNewWidth
                then (newWidth, Some otherPanelNewWidth)
                else
                  let otherPanelAtMinRight = otherRectLeft other + otherPanelMinWidth;
                      minAllowedLeft = otherPanelAtMinRight + gapBetweenPanels;
                      maxAllowedWidth = innerWidth e - minAllowedLeft
                  in (min newWidth maxAllowedWidth, None)
           else (newWidth, None))"

definition handleMouseMove :: "position \<Rightarrow> drag \<Rightarrow> mouse_move \<Rightarrow> widths option" where
  "handleMouseMove pos d e =
     (if \<not> isDragging d then None
      else
        let newWidth = candidate pos d e;
            (newWidth', otherNew) =
              (case otherPanelContainer e of
                 Some other \<Rightarrow>
                   if hasOpenClass other then enforce_gap pos e other newWidth
                   else (newWidth, None)
               | None \<Rightarrow> (newWidth, None))
        in Some \<lparr>thisWidth = max minWidth newWidth', otherWidth = otherNew\<rparr>)"

text \<open>
  The geometry the handler computes with: the right panel ends at the right edge of the
  window (its left edge is \<^verbatim>\<open>window.innerWidth\<close> minus its width), the left panel starts at
  its measured left edge.  \<open>layout_consistent\<close> says that the measured rectangle of the other
  panel agrees with this and with its \<^verbatim>\<open>offsetWidth\<close>; \<open>gap_after\<close> is the distance between
  the inner edges of the two panels once the widths written by the handler are in effect.
\<close>

definition layout_consistent :: "position \<Rightarrow> mouse_move \<Rightarrow> other_panel \<Rightarrow> bool" where
  "layout_consistent pos e other =
     (if pos = PanelLeft then otherRectLeft other = innerWidth e - otherOffsetWidth other
      else otherRectWidth other = otherOffsetWidth other)"

definition gap_after :: "position \<Rightarrow> mouse_move \<Rightarrow> other_panel \<Rightarrow> widths \<Rightarrow> real" where
  "gap_after pos e other w =
     (let otherFinal = (case otherWidth w of Some x \<Rightarrow> x | None \<Rightarrow> otherOffsetWidth other)
      in if pos = PanelLeft
         then (innerWidth e - otherFinal) - (thisRectLeft e + thisWidth w)
         else (innerWidth e - thisWidth w) - (otherRectLeft other + otherFinal))"

text \<open>Whether a width for the panel being dragged would leave less than the gap, by how
  much, and the room from the outer edge of the left panel to the right edge of the
  window.\<close>

definition breaks_gap :: "position \<Rightarrow> mouse_move \<Rightarrow> other_panel \<Rightarrow> real \<Rightarrow> bool" where
  "breaks_gap pos e other newWidth =
     (if pos = PanelLeft
      then otherRectLeft other - gapBetweenPanels < thisRectLeft e + newWidth
      else innerWidth e - newWidth < otherRectLeft other + otherRectWidth other + gapBetweenPanels)"

definition overlap_of :: "position \<Rightarrow> mouse_move \<Rightarrow> other_panel \<Rightarrow> real \<Rightarrow> real" where
  "overlap_of pos e other newWidth =
     (if pos = PanelLeft
      then thisRectLeft e + newWidth - (otherRectLeft other - gapBetweenPanels)
      else otherRectLeft other + otherRectWidth other + gapBetweenPanels
             - (innerWidth e - newWidth))"

definition room :: "position \<Rightarrow> mouse_move \<Rightarrow> other_panel \<Rightarrow> real" where
  "room pos e other =
     (if pos = PanelLeft then innerWidth e - thisRectLeft e
      else innerWidth e - otherRectLeft other)"

text \<open>A window 1200 wide, the left panel at the left edge with width 400, the right panel
  open with the given width at the right edge; the pointer, pressed on the left panel's
  handle at 400, is moved to \<open>x\<close>.\<close>

definition drag_left_from_400 :: drag where
  "drag_left_from_400 = \<lparr>isDragging = True, startX = 400, startWidth = 400\<rparr>"

definition right_panel :: "real \<Rightarrow> real \<Rightarrow> other_panel" where
  "right_panel viewport w =
     \<lparr>hasOpenClass = True, otherRectLeft = viewport - w, otherRectWidth = w,
      otherOffsetWidth = w\<rparr>"

definition move_to :: "real \<Rightarrow> real \<Rightarrow> real \<Rightarrow> mouse_move" where
  "move_to viewport w x =
     \<lparr>clientX = x, innerWidth = viewport, thisRectLeft = 0,
      otherPanelContainer = Some (right_panel viewport w)\<rparr>"

section \<open>Zoom\<close>

text \<open>
  JavaScript numbers.  Finite values are kept as exact reals (rounding of the binary
  floating-point format is not modelled, and zero carries no sign); the two infinities and
  \<^verbatim>\<open>NaN\<close>, which a division by a zero-sized rectangle produces, are values of their own.
\<close>

datatype jsnum = Fin real | PosInf | NegInf | NaN

fun js_mul :: "jsnum \<Rightarrow> jsnum \<Rightarrow> jsnum" where
  "js_mul NaN y = NaN"
| "js_mul x NaN = NaN"
| "js_mul (Fin a) (Fin b) = Fin (a * b)"
| "js_mul (Fin a) PosInf = (if a = 0 then NaN else if 0 < a then PosInf else NegInf)"
| "js_mul (Fin a) NegInf = (if a = 0 then NaN else if 0 < a then NegInf else PosInf)"
| "js_mul PosInf (Fin b) = (if b = 0 then NaN else if 0 < b then PosInf else NegInf)"
| "js_mul NegInf (Fin b) = (if b = 0 then NaN else if 0 < b then NegInf else PosInf)"
| "js_mul PosInf PosInf = PosInf"
| "js_mul NegInf NegInf = PosInf"
| "js_mul PosInf NegInf = NegInf"
| "js_mul NegInf PosInf = NegInf"

fun js_div :: "jsnum \<Rightarrow> jsnum \<Rightarrow> jsnum" where
  "js_div NaN y = NaN"
| "js_div x NaN = NaN"
| "js_div (Fin a) (Fin b) =
     (if b = 0 then (if a = 0 then NaN else if 0 < a then PosInf else NegInf)
      else Fin (a / b))"
| "js_div (Fin a) PosInf = Fin 0"
| "js_div (Fin a) NegInf = Fin 0"
| "js_div PosInf (Fin b) = (if 0 \<le> b then PosInf else NegInf)"
| "js_div NegInf (Fin b) = (if 0 \<le> b then NegInf else PosInf)"
| "js_div PosInf PosInf = NaN"
| "js_div PosInf NegInf = NaN"
| "js_div NegInf PosInf = NaN"
| "js_div NegInf NegInf = NaN"

text \<open>\<^verbatim>\<open>Math.min\<close> and \<^verbatim>\<open>Math.max\<close>: \<^verbatim>\<open>NaN\<close> as soon as one argument is.\<close>

fun js_min :: "jsnum \<Rightarrow> jsnum \<Rightarrow> jsnum" where
  "js_min NaN y = NaN"
| "js_min x NaN = NaN"
| "js_min NegInf y = NegInf"
| "js_min x NegInf = NegInf"
| "js_min PosInf y = y"
| "js_min x PosInf = x"
| "js_min (Fin a) (Fin b) = Fin (min a b)"

fun js_max :: "jsnum \<Rightarrow> jsnum \<Rightarrow> jsnum" where
  "js_max NaN y = NaN"
| "js_max x NaN = NaN"
| "js_max PosInf y = PosInf"
| "js_max x PosInf = PosInf"
| "js_max NegInf y = y"
| "js_max x NegInf = x"
| "js_max (Fin a) (Fin b) = Fin (max a b)"

text \<open>The zoom fields of a \<^verbatim>\<open>FlowCanvas\<close>, and the one piece of the document that the zoom
  methods write and read back: the scale of the transform on \<^verbatim>\<open>#flow-canvas-content\<close>, which
  is 1 as long as no transform has been written.  \<^verbatim>\<open>minZoom\<close>, \<^verbatim>\<open>maxZoom\<close> and \<^verbatim>\<open>zoomFactor\<close>
  are assigned once, in the constructor.\<close>

record zoom =
  zoomLevel :: jsnum
  isZoomManuallyChanged :: bool
  contentScale :: real

definition minZoom :: jsnum where "minZoom = Fin 0.25"
definition maxZoom :: jsnum where "maxZoom = Fin 3"
definition zoomFactor :: jsnum where "zoomFactor = Fin 1.05"

definition new_zoom :: zoom where
  "new_zoom = \<lparr>zoomLevel = Fin 1, isZoomManuallyChanged = False, contentScale = 1\<rparr>"

text \<open>What the zoom methods find in the document at the time of a call: the layout box of
  \<^verbatim>\<open>#flow-canvas-content\<close>, that is its size before its own transform, and the bounding
  rectangle of \<^verbatim>\<open>.flow-canvas-main\<close>; \<open>None\<close> for an element that is not there.\<close>

record rect =
  rect_width :: real
  rect_height :: real

record zoom_dom =
  content :: "rect option"
  canvasMain :: "rect option"

definition mounted :: "zoom_dom \<Rightarrow> bool" where
  "mounted d = (content d \<noteq> None \<and> canvasMain d \<noteq> None)"

text \<open>\<^verbatim>\<open>applyZoom\<close> stores the clamped level and writes \<^verbatim>\<open>scale(level)\<close> as the transform of the
  content element.  A level that is not a number gives a value that is no transform, and
  the element keeps the transform it had.\<close>

definition applyZoom :: "zoom_dom \<Rightarrow> jsnum \<Rightarrow> zoom \<Rightarrow> zoom" where
  "applyZoom d z s =
     (if content d \<noteq> None \<and> canvasMain d \<noteq> None
      then
        let level = js_max minZoom (js_min maxZoom z)
        in s\<lparr>zoomLevel := level,
             contentScale := (case level of Fin x \<Rightarrow> x | _ \<Rightarrow> contentScale s)\<rparr>
      else s)"

definition zoomIn :: "zoom_dom \<Rightarrow> zoom \<Rightarrow> zoom" where
  "zoomIn d s =
     (let s1 = s\<lparr>isZoomManuallyChanged := True\<rparr>
      in applyZoom d (js_mul (zoomLevel s1) zoomFactor) s1)"

definition zoomOut :: "zoom_dom \<Rightarrow> zoom \<Rightarrow> zoom" where
  "zoomOut d s =
     (let s1 = s\<lparr>isZoomManuallyChanged := True\<rparr>
      in applyZoom d (js_div (zoomLevel s1) zoomFactor) s1)"

text \<open>\<^verbatim>\<open>getBoundingClientRect\<close> of the content element: its layout box after its transform,
  so scaled by the scale that \<^verbatim>\<open>applyZoom\<close> wrote last.\<close>

definition content_rect :: "zoom \<Rightarrow> rect \<Rightarrow> rect" where
  "content_rect s box =
     \<lparr>rect_width = rect_width box * contentScale s,
      rect_height = rect_height box * contentScale s\<rparr>"

definition zoomFit :: "zoom_dom \<Rightarrow> zoom \<Rightarrow> zoom" where
  "zoomFit d s =
     (if isZoomManuallyChanged s
      then applyZoom d (Fin 1) (s\<lparr>isZoomManuallyChanged := False\<rparr>)
      else
        (case (content d, canvasMain d) of
           (Some box, Some wrapperRect) \<Rightarrow>
             let contentRect = content_rect s box;
                 scaleX = js_div (Fin (rect_width wrapperRect - 96)) (Fin (rect_width contentRect));
                 scaleY = js_div (Fin (rect_height wrapperRect - 96)) (Fin (rect_height contentRect));
                 fitZoom = js_min (js_min scaleX scaleY) (Fin 1)
             in applyZoom d (js_max minZoom fitZoom) (s\<lparr>isZoomManuallyChanged := False\<rparr>)
         | _ \<Rightarrow> s))"

text \<open>A sequence of zoom-in and zoom-out calls, each with the document as it is at that
  call.\<close>

datatype zoom_op = ZoomIn | ZoomOut

fun zoom_step :: "zoom_op \<times> zoom_dom \<Rightarrow> zoom \<Rightarrow> zoom" where
  "zoom_step (ZoomIn, d) s = zoomIn d s"
| "zoom_step (ZoomOut, d) s = zoomOut d s"

fun run_zoom :: "(zoom_op \<times> zoom_dom) list \<Rightarrow> zoom \<Rightarrow> zoom" where
  "run_zoom [] s = s"
| "run_zoom (x # xs) s = run_zoom xs (zoom_step x s)"

fun zoom_in_range :: "jsnum \<Rightarrow> bool" where
  "zoom_in_range (Fin l) = (0.25 \<le> l \<and> l \<le> 3)"
| "zoom_in_range x = False"

text \<open>The fit ratio of the specification, for rectangles of positive size.\<close>

definition spec_fit :: "rect \<Rightarrow> rect \<Rightarrow> real" where
  "spec_fit viewport contentSize =
     max 0.25 (min (min ((rect_width viewport - 96) / rect_width contentSize)
                        ((rect_height viewport - 96) / rect_height contentSize)) 1)"

text \<open>A document in which both elements exist, for the concrete runs: a content box of
  2000 by 1000 in a main area of 1096 by 896.\<close>

definition sample_dom :: zoom_dom where
  "sample_dom =
     \<lparr>content = Some \<lparr>rect_width = 2000, rect_height = 1000\<rparr>,
      canvasMain = Some \<lparr>rect_width = 1096, rect_height = 896\<rparr>\<rparr>"

section \<open>Facts about the primitives\<close>

lemma findIndex_ge: "- 1 \<le> findIndex p xs"
  by (induction xs) (auto simp: Let_def)

lemma findIndex_lt: "findIndex p xs < int (length xs)"
  by (induction xs) (auto simp: Let_def)

lemma findIndex_found_elem: "x \<in> set xs \<Longrightarrow> p x \<Longrightarrow> 0 \<le> findIndex p xs"
proof (induction xs)
  case Nil
  then show ?case by simp
next
  case (Cons y ys)
  show ?case
  proof (cases "p y")
    case True
    then show ?thesis by simp
  next
    case False
    with Cons.prems have "x \<in> set ys" by auto
    from Cons.IH [OF this Cons.prems(2)] False show ?thesis by (simp add: Let_def)
  qed
qed

lemma findIndex_found: "\<exists>x\<in>set xs. p x \<Longrightarrow> 0 \<le> findIndex p xs"
  by (auto intro: findIndex_found_elem)

lemma findIndex_takeWhile:
  "\<exists>x\<in>set xs. p x \<Longrightarrow> findIndex p xs = int (length (takeWhile (\<lambda>x. \<not> p x) xs))"
proof (induction xs)
  case Nil
  then show ?case by simp
next
  case (Cons x xs)
  show ?case
  proof (cases "p x")
    case True
    then show ?thesis by simp
  next
    case False
    with Cons.prems have ex: "\<exists>y\<in>set xs. p y" by auto
    from findIndex_found [OF ex] Cons.IH [OF ex] False show ?thesis
      by (simp add: Let_def)
  qed
qed

lemma findIndex_none: "\<forall>x\<in>set xs. \<not> p x \<Longrightarrow> findIndex p xs = - 1"
  by (induction xs) (auto simp: Let_def)

lemma findIndex_nth:
  "0 \<le> findIndex p xs \<Longrightarrow> p (xs ! nat (findIndex p xs))"
proof (induction xs)
  case Nil
  then show ?case by simp
next
  case (Cons x xs)
  show ?case
  proof (cases "p x")
    case True
    then show ?thesis by simp
  next
    case False
    with Cons.prems have r: "0 \<le> findIndex p xs"
      by (auto simp: Let_def split: if_splits)
    with Cons.IH have "p (xs ! nat (findIndex p xs))" by simp
    with False r show ?thesis by (simp add: Let_def nat_add_distrib)
  qed
qed

lemma slice_inclusive:
  assumes "b < length xs"
  shows "slice (int a) (int b + 1) xs = map (\<lambda>k. xs ! k) [a ..< Suc b]"
proof -
  have "slice (int a) (int b + 1) xs = take (Suc b - a) (drop a xs)"
  proof (cases "a \<le> length xs")
    case True
    with assms have "nat (max (int b + 1 - int a) 0) = Suc b - a" by auto
    with True assms show ?thesis by (simp add: slice_def Let_def min_def)
  next
    case False
    with assms show ?thesis by (simp add: slice_def Let_def min_def)
  qed
  also have "\<dots> = map (\<lambda>k. xs ! k) [a ..< Suc b]"
  proof (cases "a \<le> Suc b")
    case True
    with assms have "map (\<lambda>k. xs ! k) [a ..< Suc b] = take (Suc b - a) (drop a xs)"
      by (intro map_upt_eqI) auto
    then show ?thesis by simp
  next
    case False
    then show ?thesis by simp
  qed
  finally show ?thesis .
qed

lemma slice_empty:
  assumes "0 \<le> a" and "b \<le> a" and "0 \<le> b"
  shows "slice a b xs = []"
  using assms by (auto simp: slice_def Let_def min_def)

section \<open>Test scope\<close>

text \<open>
  C2.  For every node graph and every scope whose bounds reference existing nodes,
  \<open>getTestScope\<close> is the scope algorithm of the specification: all node ids in order when no
  bound is set, otherwise the inclusive slice from the index of the start bound (0 when
  unset) to the index of the end bound (the last index when unset).  A bound is set when
  it is truthy, as in the source and in the specification's \<^verbatim>\<open>start ? \<dots> : 0\<close>.  For the
  default nodes, setting the start point to \<open>create-task\<close> gives the four ids from
  \<open>create-task\<close> to \<open>end\<close>.
\<close>

theorem getTestScope_inclusive_slice:
  "(references_node c (testStartPoint c) \<and> references_node c (testEndPoint c)
      \<longrightarrow> getTestScope c = spec_scopeNodeIds c)
   \<and> getTestScope (setTestStartPoint ''create-task'' (new_canvas getDefaultNodes))
       = [''create-task'', ''update-case'', ''send-email'', ''end'']"
proof (intro conjI impI)
  assume refs: "references_node c (testStartPoint c) \<and> references_node c (testEndPoint c)"
  let ?ns = "nodes c"
  let ?ids = "map node_id ?ns"
  show "getTestScope c = spec_scopeNodeIds c"
  proof (cases "\<not> truthy (testStartPoint c) \<and> \<not> truthy (testEndPoint c)")
    case True
    then show ?thesis by (simp add: getTestScope_def spec_scopeNodeIds_def)
  next
    case False
    have idx: "findIndex (\<lambda>n. Some (node_id n) = b) ?ns = int (spec_indexOf ?ns (the b))
               \<and> spec_indexOf ?ns (the b) < length ?ns"
      if "truthy b" and "references_node c b" for b
    proof -
      from that obtain i where b: "b = Some i" and i: "i \<in> set ?ids"
        by (auto simp: truthy_def references_node_def split: option.splits)
      then have ex: "\<exists>n\<in>set ?ns. Some (node_id n) = b" by auto
      have "findIndex (\<lambda>n. Some (node_id n) = b) ?ns
            = int (length (takeWhile (\<lambda>n. \<not> Some (node_id n) = b) ?ns))"
        by (rule findIndex_takeWhile [OF ex])
      also have "\<dots> = int (spec_indexOf ?ns (the b))"
        by (simp add: spec_indexOf_def b)
      finally have eq: "findIndex (\<lambda>n. Some (node_id n) = b) ?ns = int (spec_indexOf ?ns (the b))" .
      with findIndex_lt [of "\<lambda>n. Some (node_id n) = b" ?ns] show ?thesis by simp
    qed
    have nonempty: "?ns \<noteq> []"
    proof
      assume "?ns = []"
      with False refs show False
        by (auto simp: truthy_def references_node_def split: option.splits)
    qed
    define a where "a = (if truthy (testStartPoint c)
                         then spec_indexOf ?ns (the (testStartPoint c)) else 0)"
    define b where "b = (if truthy (testEndPoint c)
                         then spec_indexOf ?ns (the (testEndPoint c)) else length ?ids - 1)"
    have a: "(if truthy (testStartPoint c)
              then findIndex (\<lambda>n. Some (node_id n) = testStartPoint c) ?ns else 0) = int a"
      using idx [of "testStartPoint c"] refs by (simp add: a_def)
    have b: "(if truthy (testEndPoint c)
              then findIndex (\<lambda>n. Some (node_id n) = testEndPoint c) ?ns
              else int (length ?ns) - 1) = int b"
      using idx [of "testEndPoint c"] refs nonempty
      by (cases ?ns) (simp_all add: b_def)
    have blt: "b < length ?ns"
      using idx [of "testEndPoint c"] refs nonempty by (cases ?ns) (simp_all add: b_def)
    have "getTestScope c = map node_id (slice (int a) (int b + 1) ?ns)"
      using False a b by (auto simp add: getTestScope_def Let_def)
    also have "\<dots> = map node_id (map (\<lambda>k. ?ns ! k) [a ..< Suc b])"
      by (simp only: slice_inclusive [OF blt])
    also have "\<dots> = spec_inclusive_slice a b ?ids"
      using blt by (auto simp add: spec_inclusive_slice_def)
    also have "\<dots> = spec_scopeNodeIds c"
      using False by (auto simp add: spec_scopeNodeIds_def Let_def a_def b_def)
    finally show ?thesis .
  qed
next
  show "getTestScope (setTestStartPoint ''create-task'' (new_canvas getDefaultNodes))
        = [''create-task'', ''update-case'', ''send-email'', ''end'']"
    by code_simp
qed

theorem getTestScope_inclusive_slice_witness:
  "references_node (setTestEndPoint ''send-email'' (setTestStartPoint ''create-task''
       (new_canvas getDefaultNodes))) (Some ''create-task'')
   \<and> references_node (setTestEndPoint ''send-email'' (setTestStartPoint ''create-task''
       (new_canvas getDefaultNodes))) (Some ''send-email'')
   \<and> getTestScope (setTestEndPoint ''send-email'' (setTestStartPoint ''create-task''
       (new_canvas getDefaultNodes))) = [''create-task'', ''update-case'', ''send-email'']"
proof -
  let ?c = "setTestEndPoint ''send-email'' (setTestStartPoint ''create-task''
       (new_canvas getDefaultNodes))"
  have s: "testStartPoint ?c = Some ''create-task''" and e: "testEndPoint ?c = Some ''send-email''"
    by (simp_all add: setTestEndPoint_def setTestStartPoint_def handleStartEndPointChange_def
        clearExecutionPath_def)
  have r1: "references_node ?c (Some ''create-task'')" by code_simp
  have r2: "references_node ?c (Some ''send-email'')" by code_simp
  have v: "spec_scopeNodeIds ?c = [''create-task'', ''update-case'', ''send-email'']"
    by code_simp
  from getTestScope_inclusive_slice [of ?c] r1 r2 s e
  have "getTestScope ?c = spec_scopeNodeIds ?c" by simp
  with r1 r2 v show ?thesis by simp
qed

text \<open>
  C10.  When both bounds are set and the index of the start node is strictly greater than
  the index of the end node, \<open>getTestScope\<close> returns the empty sequence.  The function is a
  pure reader of the state: it raises nothing and changes no field.
\<close>

theorem getTestScope_inverted_empty:
  assumes "truthy (testStartPoint c)" and "truthy (testEndPoint c)"
    and "findIndex (\<lambda>n. Some (node_id n) = testStartPoint c) (nodes c)
         > findIndex (\<lambda>n. Some (node_id n) = testEndPoint c) (nodes c)"
  shows "getTestScope c = []"
proof -
  let ?s = "findIndex (\<lambda>n. Some (node_id n) = testStartPoint c) (nodes c)"
  let ?e = "findIndex (\<lambda>n. Some (node_id n) = testEndPoint c) (nodes c)"
  have "- 1 \<le> ?e" by (rule findIndex_ge)
  with assms(3) have "0 \<le> ?s" "?e + 1 \<le> ?s" "0 \<le> ?e + 1" by simp_all
  then have "slice ?s (?e + 1) (nodes c) = []" by (rule slice_empty)
  with assms(1,2) show ?thesis by (simp add: getTestScope_def Let_def)
qed

theorem getTestScope_inverted_empty_witness:
  "truthy (testStartPoint (setTestStartPoint ''send-email'' (setTestEndPoint ''create-task''
       (new_canvas getDefaultNodes))))
   \<and> truthy (testEndPoint (setTestStartPoint ''send-email'' (setTestEndPoint ''create-task''
       (new_canvas getDefaultNodes))))
   \<and> findIndex (\<lambda>n. Some (node_id n) = Some ''send-email'') getDefaultNodes
       > findIndex (\<lambda>n. Some (node_id n) = Some ''create-task'') getDefaultNodes
   \<and> getTestScope (setTestStartPoint ''send-email'' (setTestEndPoint ''create-task''
       (new_canvas getDefaultNodes))) = []"
  using getTestScope_inverted_empty
    [of "setTestStartPoint ''send-email'' (setTestEndPoint ''create-task''
       (new_canvas getDefaultNodes))"]
  by (simp add: setTestEndPoint_def setTestStartPoint_def handleStartEndPointChange_def
      clearExecutionPath_def new_canvas_def getDefaultNodes_def truthy_def)

section \<open>Zoom level\<close>

lemma zoom_step_range:
  assumes "zoom_in_range (zoomLevel s)"
  shows "zoom_in_range (zoomLevel (zoom_step x s))"
proof -
  from assms obtain l where l: "zoomLevel s = Fin l" "0.25 \<le> l" "l \<le> 3"
    by (cases "zoomLevel s") auto
  obtain k d where x: "x = (k, d)" by (cases x)
  show ?thesis
  proof (cases k)
    case ZoomIn
    with x l show ?thesis
      by (simp add: zoomIn_def applyZoom_def Let_def minZoom_def maxZoom_def zoomFactor_def)
  next
    case ZoomOut
    with x l show ?thesis
      by (simp add: zoomOut_def applyZoom_def Let_def minZoom_def maxZoom_def zoomFactor_def)
  qed
qed

lemma run_zoom_range:
  "zoom_in_range (zoomLevel s) \<Longrightarrow> zoom_in_range (zoomLevel (run_zoom ops s))"
  by (induction ops arbitrary: s) (simp_all add: zoom_step_range)

lemma run_zoom_append: "run_zoom (xs @ ys) s = run_zoom ys (run_zoom xs s)"
  by (induction xs arbitrary: s) simp_all

lemma run_zoom_replicate_Suc:
  "run_zoom (replicate (Suc n) x) s = zoom_step x (run_zoom (replicate n x) s)"
proof -
  have "replicate (Suc n) x = replicate n x @ [x]"
    by (simp add: replicate_append_same)
  then show ?thesis by (simp only: run_zoom_append run_zoom.simps)
qed

lemma zoomIn_level:
  assumes "mounted d" and "zoomLevel s = Fin l" and "1 \<le> l"
  shows "zoomLevel (zoomIn d s) = Fin (min 3 (l * (21/20)))"
  using assms
  by (simp add: zoomIn_def applyZoom_def Let_def minZoom_def maxZoom_def zoomFactor_def
      mounted_def max_def min_def)

lemma zoomIn_repeated:
  assumes "mounted d"
  shows "zoomLevel (run_zoom (replicate n (ZoomIn, d)) new_zoom) = Fin (min 3 ((21/20) ^ n))"
proof (induction n)
  case 0
  show ?case by (simp add: new_zoom_def)
next
  case (Suc n)
  have one: "(1::real) \<le> min 3 ((21/20) ^ n)" by simp
  have "zoomLevel (run_zoom (replicate (Suc n) (ZoomIn, d)) new_zoom)
        = Fin (min 3 (min 3 ((21/20) ^ n) * (21/20)))"
    by (simp only: run_zoom_replicate_Suc zoom_step.simps zoomIn_level [OF assms Suc.IH one])
  also have "min 3 (min 3 ((21/20) ^ n) * (21/20)) = min (3::real) ((21/20) ^ Suc n)"
  proof (cases "(21/20::real) ^ n \<le> 3")
    case True
    then show ?thesis by (simp add: min_def)
  next
    case False
    then have "(3::real) < (21/20) ^ n" by simp
    then have "(3::real) \<le> (21/20) ^ n * (21/20)" by simp
    with False show ?thesis by (simp add: min_def)
  qed
  finally show ?case .
qed

lemma pow23: "(3::real) < (21/20) ^ 23" by (simp add: power_divide)
lemma pow20: "(21/20::real) ^ 20 < 3" by (simp add: power_divide)

lemma pow_ge23: "23 \<le> n \<Longrightarrow> (3::real) < (21/20) ^ n"
proof -
  assume "23 \<le> n"
  then have "(21/20::real) ^ 23 \<le> (21/20) ^ n" by (intro power_increasing) simp_all
  with pow23 show ?thesis by (rule less_le_trans)
qed


lemma pow22: "(21/20::real) ^ 22 < 3" by (simp add: power_divide)

lemma pow_le22: "n \<le> 22 \<Longrightarrow> (21/20::real) ^ n < 3"
proof -
  assume "n \<le> 22"
  then have "(21/20::real) ^ n \<le> (21/20) ^ 22" by (intro power_increasing) simp_all
  then show ?thesis using pow22 by (rule le_less_trans)
qed

lemma mounted_sample_dom: "mounted sample_dom"
  by (simp add: mounted_def sample_dom_def)

text \<open>
  C4, as the specification states it, fails: twenty zoom-in calls from level 1 reach
  \<open>1.05\<^sup>2\<^sup>0\<close>, about 2.65, and not 3.0.
\<close>

theorem zoomIn_20_not_saturated:
  "zoomLevel (run_zoom (replicate 20 (ZoomIn, sample_dom)) new_zoom) \<noteq> Fin 3"
  using zoomIn_repeated [OF mounted_sample_dom, of 20] pow20 by (simp add: min_def)

text \<open>
  C4, amended.  After any sequence of zoom-in and zoom-out calls from the constructor's
  state the zoom level is a number within \<open>[0.25, 3.0]\<close>.  With the canvas mounted, twenty
  consecutive zoom-in calls from level 1 give \<open>1.05\<^sup>2\<^sup>0\<close>, which is below 3.0; the level is
  exactly 3.0 after \<open>n\<close> consecutive zoom-in calls if and only if \<open>n \<ge> 23\<close>, and it never
  exceeds 3.0.
\<close>

theorem zoom_level_bounded:
  "zoom_in_range (zoomLevel (run_zoom ops new_zoom))
   \<and> (mounted d \<longrightarrow>
        zoomLevel (run_zoom (replicate 20 (ZoomIn, d)) new_zoom) = Fin ((21/20) ^ 20)
        \<and> (21/20) ^ 20 < (3::real)
        \<and> (zoomLevel (run_zoom (replicate n (ZoomIn, d)) new_zoom) = Fin 3 \<longleftrightarrow> 23 \<le> n))"
proof (intro conjI impI)
  show "zoom_in_range (zoomLevel (run_zoom ops new_zoom))"
    by (rule run_zoom_range) (simp add: new_zoom_def)
next
  assume m: "mounted d"
  show "zoomLevel (run_zoom (replicate 20 (ZoomIn, d)) new_zoom) = Fin ((21/20) ^ 20)"
    using zoomIn_repeated [OF m, of 20] pow20 by (simp add: min_def)
  show "(21/20) ^ 20 < (3::real)" by (rule pow20)
  show "zoomLevel (run_zoom (replicate n (ZoomIn, d)) new_zoom) = Fin 3 \<longleftrightarrow> 23 \<le> n"
  proof (cases "23 \<le> n")
    case True
    with pow_ge23 [OF True] zoomIn_repeated [OF m, of n] show ?thesis by (simp add: min_def)
  next
    case False
    then have "n \<le> 22" by simp
    from pow_le22 [OF this] False zoomIn_repeated [OF m, of n] show ?thesis
      by (simp add: min_def)
  qed
qed

theorem zoom_level_bounded_witness:
  "mounted sample_dom
   \<and> zoom_in_range (zoomLevel (run_zoom [(ZoomOut, sample_dom), (ZoomIn, sample_dom)] new_zoom))
   \<and> zoomLevel (run_zoom (replicate 20 (ZoomIn, sample_dom)) new_zoom) = Fin ((21/20) ^ 20)
   \<and> zoomLevel (run_zoom (replicate 23 (ZoomIn, sample_dom)) new_zoom) = Fin 3"
  using zoom_level_bounded [of "[(ZoomOut, sample_dom), (ZoomIn, sample_dom)]" sample_dom 23]
    mounted_sample_dom
  by simp

section \<open>Fit and reset\<close>

lemma zoomFit_reset:
  "isZoomManuallyChanged s \<Longrightarrow> mounted d \<Longrightarrow>
   zoomFit d s = \<lparr>zoomLevel = Fin 1, isZoomManuallyChanged = False, contentScale = 1\<rparr>"
  by (simp add: zoomFit_def applyZoom_def mounted_def minZoom_def maxZoom_def Let_def)

lemma zoomFit_fit:
  assumes "\<not> isZoomManuallyChanged s" and "content d = Some box" and "canvasMain d = Some w"
    and "0 < rect_width box" and "0 < rect_height box" and "0 < contentScale s"
  shows "zoomFit d s
         = \<lparr>zoomLevel = Fin (spec_fit w (content_rect s box)), isZoomManuallyChanged = False,
            contentScale = spec_fit w (content_rect s box)\<rparr>"
  using assms
  by (simp add: zoomFit_def applyZoom_def minZoom_def maxZoom_def Let_def spec_fit_def
      content_rect_def)

lemma zoomIn_flag: "isZoomManuallyChanged (zoomIn d s)"
  by (simp add: zoomIn_def applyZoom_def Let_def)

text \<open>
  C5.  The toggle holds: after a manual zoom-in the first \<open>zoomFit\<close> sets the level to exactly
  1 and clears the flag, and the second computes a fit ratio and leaves the flag clear.  The
  repeated fit is not idempotent, though.  \<open>zoomFit\<close> measures the content element after the
  transform that the previous call wrote on it, so for a content box of 2000 by 1000 in a
  main area of 1096 by 896 the first fit gives 0.5, the next one measures 1000 by 500 and
  gives 1, the one after gives 0.5 again: repeated fit calls alternate.
\<close>

theorem zoomFit_repeated_alternates:
  "zoomFit sample_dom (zoomIn sample_dom new_zoom)
     = \<lparr>zoomLevel = Fin 1, isZoomManuallyChanged = False, contentScale = 1\<rparr>
   \<and> zoomFit sample_dom (zoomFit sample_dom (zoomIn sample_dom new_zoom))
     = \<lparr>zoomLevel = Fin 0.5, isZoomManuallyChanged = False, contentScale = 0.5\<rparr>
   \<and> zoomFit sample_dom (zoomFit sample_dom (zoomFit sample_dom (zoomIn sample_dom new_zoom)))
     = \<lparr>zoomLevel = Fin 1, isZoomManuallyChanged = False, contentScale = 1\<rparr>
   \<and> zoomFit sample_dom new_zoom
     = \<lparr>zoomLevel = Fin 0.5, isZoomManuallyChanged = False, contentScale = 0.5\<rparr>
   \<and> zoomFit sample_dom (zoomFit sample_dom new_zoom)
     = \<lparr>zoomLevel = Fin 1, isZoomManuallyChanged = False, contentScale = 1\<rparr>
   \<and> zoomFit sample_dom (zoomFit sample_dom new_zoom) \<noteq> zoomFit sample_dom new_zoom"
proof -
  let ?box = "\<lparr>rect_width = 2000, rect_height = 1000\<rparr>"
  let ?w = "\<lparr>rect_width = 1096, rect_height = 896\<rparr>"
  let ?one = "\<lparr>zoomLevel = Fin 1, isZoomManuallyChanged = False, contentScale = 1\<rparr>"
  let ?half = "\<lparr>zoomLevel = Fin 0.5, isZoomManuallyChanged = False, contentScale = 0.5\<rparr>"
  have c: "content sample_dom = Some ?box" and w: "canvasMain sample_dom = Some ?w"
    by (simp_all add: sample_dom_def)
  have f1: "spec_fit ?w (content_rect ?one ?box) = 0.5"
    by (simp add: spec_fit_def content_rect_def)
  have f2: "spec_fit ?w (content_rect ?half ?box) = 1"
    by (simp add: spec_fit_def content_rect_def)
  have a: "zoomFit sample_dom ?one = ?half"
    using zoomFit_fit [of ?one sample_dom ?box ?w] c w f1 by simp
  have b: "zoomFit sample_dom ?half = ?one"
    using zoomFit_fit [of ?half sample_dom ?box ?w] c w f2 by simp
  have r: "zoomFit sample_dom (zoomIn sample_dom new_zoom) = ?one"
    by (rule zoomFit_reset [OF zoomIn_flag mounted_sample_dom])
  have r2: "zoomFit sample_dom (zoomFit sample_dom (zoomIn sample_dom new_zoom)) = ?half"
    by (simp only: r a)
  have r3: "zoomFit sample_dom (zoomFit sample_dom (zoomFit sample_dom
              (zoomIn sample_dom new_zoom))) = ?one"
    by (simp only: r2 b)
  have n: "new_zoom = ?one" by (simp add: new_zoom_def)
  have n1: "zoomFit sample_dom new_zoom = ?half" by (simp only: n a)
  have n2: "zoomFit sample_dom (zoomFit sample_dom new_zoom) = ?one" by (simp only: n1 b)
  have "?one \<noteq> ?half" by simp
  with n1 n2
  have ne: "zoomFit sample_dom (zoomFit sample_dom new_zoom) \<noteq> zoomFit sample_dom new_zoom"
    by metis
  from r r2 r3 n1 n2 ne show ?thesis by blast
qed

section \<open>Styling of one line\<close>

lemma set_uniq: "set (uniq xs) = set xs"
  by (induction xs) auto

lemma distinct_uniq: "distinct (uniq xs)"
  by (induction xs) (auto simp: set_uniq)

lemma length_uniq: "length (uniq xs) = card (set xs)"
  using distinct_card [OF distinct_uniq, of xs] by (simp add: set_uniq)

lemma status_name_inj: "status_name a = status_name b \<Longrightarrow> a = b"
  by (cases a; cases b) simp_all

lemma status_class_inj: "status_class a = status_class b \<longleftrightarrow> a = b"
  by (auto simp: status_class_def dest: status_name_inj)

lemma status_class_other:
  "status_class st \<noteq> ''flow-connector-line-executed''"
  "''flow-connector-line-executed'' \<noteq> status_class st"
  "status_class st \<noteq> ''flow-connector-line-multi''"
  "''flow-connector-line-multi'' \<noteq> status_class st"
  by (cases st; simp add: status_class_def)+

lemma uniq_singleton: "length (uniq xs) = 1 \<Longrightarrow> uniq xs = [hd (uniq xs)]"
  by (cases "uniq xs") simp_all

lemma line_statuses_apply: "line_statuses (applyPathHighlightStyles xs b) = set xs"
proof (cases "xs = []")
  case True
  then show ?thesis
    by (auto simp: applyPathHighlightStyles_def line_statuses_def clearPathHighlightStyles_def
        status_class_other)
next
  case False
  show ?thesis
  proof (cases "length (uniq xs) = 1")
    case True
    from uniq_singleton [OF True] have "set xs = {hd (uniq xs)}"
      by (metis set_uniq list.simps(15) empty_set)
    with False True show ?thesis
      by (auto simp: applyPathHighlightStyles_def line_statuses_def Let_def status_class_inj)
  next
    case nt: False
    have "{st. status_class st \<in> status_class ` set (uniq xs)} = set xs"
      by (auto simp: status_class_inj set_uniq)
    with False nt show ?thesis
      by (auto simp: applyPathHighlightStyles_def line_statuses_def Let_def status_class_other)
  qed
qed

lemma executed_apply:
  "''flow-connector-line-executed'' \<in> set (classList (applyPathHighlightStyles xs b))
   \<longleftrightarrow> xs = [] \<and> b"
  by (auto simp: applyPathHighlightStyles_def Let_def clearPathHighlightStyles_def
      status_class_other)

lemma apply_single:
  assumes "card (set xs) = 1"
  shows "applyPathHighlightStyles xs b
         = \<lparr>classList = [status_class (the_elem (set xs))], pathStatuses = None\<rparr>"
proof -
  from assms have ne: "xs \<noteq> []" by auto
  from assms have l: "length (uniq xs) = 1" by (simp add: length_uniq)
  from uniq_singleton [OF l] have "set xs = {hd (uniq xs)}"
    by (metis set_uniq list.simps(15) empty_set)
  then have "the_elem (set xs) = hd (uniq xs)" by simp
  with ne l show ?thesis by (simp add: applyPathHighlightStyles_def Let_def)
qed

lemma sort_distinct: "distinct ys \<Longrightarrow> sort ys = sorted_list_of_set (set ys)"
  by (simp add: sorted_list_of_set_sort_remdups distinct_remdups_id)

lemma apply_multi:
  assumes "2 \<le> card (set xs)"
  shows "classList (applyPathHighlightStyles xs b)
           = ''flow-connector-line-multi'' # map status_class (uniq xs)
         \<and> pathStatuses (applyPathHighlightStyles xs b)
           = Some (join_comma (sorted_list_of_set (status_name ` set xs)))"
proof -
  from assms have ne: "xs \<noteq> []" by auto
  from assms have l: "length (uniq xs) \<noteq> 1" by (simp add: length_uniq)
  have "distinct (map status_name (uniq xs))"
    by (simp add: distinct_map distinct_uniq inj_on_def status_name_inj)
  from sort_distinct [OF this]
  have "sort (map status_name (uniq xs)) = sorted_list_of_set (status_name ` set xs)"
    by (simp add: set_uniq)
  with ne l show ?thesis by (simp add: applyPathHighlightStyles_def Let_def)
qed

lemma set_connectorStatusMap: "set (connectorStatusMap c i) = touching c i"
  by (auto simp: connectorStatusMap_def touching_def)

lemma length_updateConnectorStyles [simp]:
  "length (updateConnectorStyles c) = length (flow_connectors c)"
  by (simp add: updateConnectorStyles_def)

lemma nth_updateConnectorStyles:
  "i < length (flow_connectors c) \<Longrightarrow>
   updateConnectorStyles c ! i = style_connector c (int i) (flow_connectors c ! i)"
  by (simp add: updateConnectorStyles_def)

text \<open>The active line of a styled connector.\<close>

lemma active_line_style:
  "active_line (style_connector c i b)
   = (if b = None \<and> 0 \<le> endConnectorIndex c \<and> endConnectorIndex c < i
      then clearPathHighlightStyles
      else applyPathHighlightStyles (connectorStatusMap c i)
             (\<not> (0 \<le> endConnectorIndex c \<and> endConnectorIndex c < i)
              \<and> executionPath c \<noteq> [] \<and> i \<in> set (executionPath c)))"
proof (cases b)
  case None
  then show ?thesis by (auto simp: style_connector_def Let_def cong: conj_cong)
next
  case (Some bt)
  then show ?thesis by (cases bt) (auto simp: style_connector_def Let_def cong: conj_cong)
qed

section \<open>Finding the badges\<close>

lemma scan_badges_end_cong:
  "map (\<lambda>b. b = Some EndBadge) bs = map (\<lambda>b. b = Some EndBadge) bs' \<Longrightarrow>
   snd (scan_badges i bs (s, e)) = snd (scan_badges i bs' (s', e))"
proof (induction bs arbitrary: bs' i s s' e)
  case Nil
  then show ?case by simp
next
  case (Cons b bs)
  then obtain b' bs'' where bs': "bs' = b' # bs''" by (cases bs') auto
  with Cons.prems have hd: "(b = Some EndBadge) = (b' = Some EndBadge)"
    and tl: "map (\<lambda>b. b = Some EndBadge) bs = map (\<lambda>b. b = Some EndBadge) bs''" by auto
  show ?case
  proof (cases "b = Some EndBadge")
    case True
    with hd have "b' = Some EndBadge" by simp
    with True bs' Cons.IH [OF tl, of "i + 1" s i s'] show ?thesis by simp
  next
    case False
    with hd have nb': "b' \<noteq> Some EndBadge" by simp
    from False nb' bs' show ?thesis
      using Cons.IH [OF tl, of "i + 1" _ e _] by (auto split: if_splits)
  qed
qed

lemma scan_badges_no_end:
  "\<forall>b\<in>set bs. b \<noteq> Some EndBadge \<Longrightarrow> snd (scan_badges i bs (s, e)) = e"
  by (induction bs arbitrary: i s) auto

lemma scan_badges_end_at:
  "snd (scan_badges i bs (s, e)) = r \<Longrightarrow>
   r = e \<or> (i \<le> r \<and> r < i + int (length bs) \<and> bs ! nat (r - i) = Some EndBadge)"
proof (induction bs arbitrary: i s e)
  case Nil
  then show ?case by simp
next
  case (Cons b bs)
  show ?case
  proof (cases "b = Some EndBadge")
    case True
    with Cons.prems have "snd (scan_badges (i + 1) bs (s, i)) = r" by simp
    from Cons.IH [OF this] show ?thesis
    proof
      assume "r = i"
      with True show ?thesis by simp
    next
      assume a: "i + 1 \<le> r \<and> r < i + 1 + int (length bs) \<and> bs ! nat (r - (i + 1)) = Some EndBadge"
      then have "nat (r - i) = Suc (nat (r - (i + 1)))" by arith
      with a show ?thesis by simp
    qed
  next
    case False
    with Cons.prems obtain s' where "snd (scan_badges (i + 1) bs (s', e)) = r"
      by (auto split: if_splits)
    from Cons.IH [OF this] show ?thesis
    proof
      assume "r = e"
      then show ?thesis by simp
    next
      assume a: "i + 1 \<le> r \<and> r < i + 1 + int (length bs) \<and> bs ! nat (r - (i + 1)) = Some EndBadge"
      then have "nat (r - i) = Suc (nat (r - (i + 1)))" by arith
      with a show ?thesis by simp
    qed
  qed
qed

lemma scan_badges_end_ge:
  "k < length bs \<Longrightarrow> bs ! k = Some EndBadge \<Longrightarrow> e < i \<Longrightarrow>
   i + int k \<le> snd (scan_badges i bs (s, e))"
proof (induction bs arbitrary: i s e k)
  case Nil
  then show ?case by simp
next
  case (Cons b bs)
  show ?case
  proof (cases k)
    case 0
    with Cons.prems have b: "b = Some EndBadge" by simp
    have "snd (scan_badges (i + 1) bs (s, i)) = i
          \<or> (i + 1 \<le> snd (scan_badges (i + 1) bs (s, i)))"
      using scan_badges_end_at [of "i + 1" bs s i "snd (scan_badges (i + 1) bs (s, i))"] by auto
    with b 0 show ?thesis by auto
  next
    case (Suc k')
    with Cons.prems have k': "k' < length bs" "bs ! k' = Some EndBadge" by simp_all
    obtain s' e' where step: "scan_badges i (b # bs) (s, e) = scan_badges (i + 1) bs (s', e')"
      and e': "e' < i + 1"
      using Cons.prems(3) by (cases "b = Some EndBadge"; cases "b = Some StartBadge") auto
    from Cons.IH [OF k' e', of s'] step Suc show ?thesis by simp
  qed
qed

section \<open>The rendered connectors and the bounds\<close>

lemma length_flow_connectors [simp]: "length (flow_connectors c) = length (nodes c) - 1"
  by (simp add: flow_connectors_def)

lemma nth_flow_connectors:
  assumes "i < length (nodes c) - 1"
  shows "flow_connectors c ! i =
         (if testStartPoint c = Some (node_id (nodes c ! Suc i)) then Some StartBadge
          else if testEndPoint c = Some (node_id (nodes c ! i)) then Some EndBadge
          else None)"
proof -
  from assms have a: "at_index (nodes c) (int i + 1) = Some (nodes c ! Suc i)"
    by (auto simp: at_index_def nat_add_distrib)
  from assms have b: "at_index (nodes c) (int i) = Some (nodes c ! i)"
    by (auto simp: at_index_def)
  from assms have "flow_connectors c ! i = renderConnector c (int i)"
    by (simp add: flow_connectors_def)
  with a b show ?thesis by (simp add: renderConnector_def Let_def)
qed

lemma shadowed_iff:
  "shadowed c \<longleftrightarrow>
   (\<exists>i<length (nodes c) - 1. testStartPoint c = Some (node_id (nodes c ! Suc i))
                              \<and> testEndPoint c = Some (node_id (nodes c ! i)))"
  by (auto simp: shadowed_def list_ex_iff)

lemma renderConnector_cong:
  assumes "nodes c' = nodes c" and "testStartPoint c' = testStartPoint c"
    and "testEndPoint c' = testEndPoint c"
  shows "renderConnector c' i = renderConnector c i"
  unfolding renderConnector_def assms by (rule refl)

lemma flow_connectors_cong:
  assumes "nodes c' = nodes c" and "testStartPoint c' = testStartPoint c"
    and "testEndPoint c' = testEndPoint c"
  shows "flow_connectors c' = flow_connectors c"
  unfolding flow_connectors_def renderConnector_cong [OF assms] assms(1) by (rule refl)

lemma endConnectorIndex_cong:
  assumes "nodes c' = nodes c" and "testStartPoint c' = testStartPoint c"
    and "testEndPoint c' = testEndPoint c"
  shows "endConnectorIndex c' = endConnectorIndex c"
  unfolding endConnectorIndex_def flow_connectors_cong [OF assms] by (rule refl)

lemma startConnectorIndex_cong:
  assumes "nodes c' = nodes c" and "testStartPoint c' = testStartPoint c"
    and "testEndPoint c' = testEndPoint c"
  shows "startConnectorIndex c' = startConnectorIndex c"
  unfolding startConnectorIndex_def flow_connectors_cong [OF assms] by (rule refl)

lemma endConnectorIndex_no_end:
  assumes "testEndPoint c = None"
  shows "endConnectorIndex c = - 1"
proof -
  have "\<forall>b\<in>set (flow_connectors c). b \<noteq> Some EndBadge"
  proof
    fix b
    assume "b \<in> set (flow_connectors c)"
    then obtain i where i: "i < length (nodes c) - 1" and b: "b = flow_connectors c ! i"
      by (auto simp: in_set_conv_nth)
    show "b \<noteq> Some EndBadge"
      unfolding b nth_flow_connectors [OF i] using assms by simp
  qed
  then show ?thesis unfolding endConnectorIndex_def by (rule scan_badges_no_end)
qed

lemma endConnectorIndex_clearTestStartPoint:
  assumes "\<not> shadowed c"
  shows "endConnectorIndex (clearTestStartPoint c) = endConnectorIndex c"
proof -
  let ?c' = "clearTestStartPoint c"
  have n: "nodes ?c' = nodes c" and e: "testEndPoint ?c' = testEndPoint c"
    and s: "testStartPoint ?c' = None"
    by (simp_all add: clearTestStartPoint_def)
  have "map (\<lambda>b. b = Some EndBadge) (flow_connectors ?c')
        = map (\<lambda>b. b = Some EndBadge) (flow_connectors c)"
  proof (rule nth_equalityI)
    show "length (map (\<lambda>b. b = Some EndBadge) (flow_connectors ?c'))
          = length (map (\<lambda>b. b = Some EndBadge) (flow_connectors c))"
      by (simp add: n)
  next
    fix i
    assume "i < length (map (\<lambda>b. b = Some EndBadge) (flow_connectors ?c'))"
    then have i: "i < length (nodes c) - 1" by (simp add: n)
    then have i': "i < length (nodes ?c') - 1" by (simp add: n)
    from assms i have ns: "\<not> (testStartPoint c = Some (node_id (nodes c ! Suc i))
                               \<and> testEndPoint c = Some (node_id (nodes c ! i)))"
      by (auto simp: shadowed_iff)
    have "(flow_connectors ?c' ! i = Some EndBadge) = (flow_connectors c ! i = Some EndBadge)"
      using ns by (simp add: nth_flow_connectors [OF i] nth_flow_connectors [OF i'] n e s)
    with i show "map (\<lambda>b. b = Some EndBadge) (flow_connectors ?c') ! i
                 = map (\<lambda>b. b = Some EndBadge) (flow_connectors c) ! i"
      by (simp add: n)
  qed
  then show ?thesis
    unfolding endConnectorIndex_def by (rule scan_badges_end_cong)
qed

lemma endConnectorIndex_badge:
  assumes "0 \<le> endConnectorIndex c"
  shows "nat (endConnectorIndex c) < length (nodes c) - 1
         \<and> flow_connectors c ! nat (endConnectorIndex c) = Some EndBadge"
proof -
  have "snd (scan_badges 0 (flow_connectors c) (- 1, - 1)) = endConnectorIndex c"
    by (simp add: endConnectorIndex_def)
  from scan_badges_end_at [OF this] assms
  have "0 \<le> endConnectorIndex c \<and> endConnectorIndex c < 0 + int (length (flow_connectors c))
        \<and> flow_connectors c ! nat (endConnectorIndex c - 0) = Some EndBadge"
    by linarith
  then have "nat (endConnectorIndex c) < length (flow_connectors c)"
    and "flow_connectors c ! nat (endConnectorIndex c) = Some EndBadge"
    by (simp_all add: nat_less_iff)
  then show ?thesis by simp
qed

text \<open>With distinct ids and the end badge not hidden, the end badge sits on the connector
  below the end point.\<close>

lemma endConnectorIndex_end_point:
  assumes d: "distinct (map node_id (nodes c))" and ns: "\<not> shadowed c"
    and e: "e < length (nodes c) - 1" and ep: "testEndPoint c = Some (node_id (nodes c ! e))"
  shows "endConnectorIndex c = int e"
proof -
  from ns e ep have "testStartPoint c \<noteq> Some (node_id (nodes c ! Suc e))"
    by (auto simp: shadowed_iff)
  with ep have b: "flow_connectors c ! e = Some EndBadge"
    by (simp add: nth_flow_connectors [OF e])
  from e have "e < length (flow_connectors c)" by simp
  from scan_badges_end_ge [OF this b, of "- 1" 0 "- 1"]
  have ge: "int e \<le> endConnectorIndex c" by (simp add: endConnectorIndex_def)
  then have nn: "0 \<le> endConnectorIndex c" by simp
  let ?r = "nat (endConnectorIndex c)"
  from endConnectorIndex_badge [OF nn] have r: "?r < length (nodes c) - 1"
    and rb: "flow_connectors c ! ?r = Some EndBadge" by simp_all
  from rb have "testEndPoint c = Some (node_id (nodes c ! ?r))"
    by (simp add: nth_flow_connectors [OF r] split: if_splits)
  with ep have "node_id (nodes c ! ?r) = node_id (nodes c ! e)" by simp
  moreover from r e have "?r < length (nodes c)" "e < length (nodes c)" by simp_all
  ultimately have "map node_id (nodes c) ! ?r = map node_id (nodes c) ! e"
    and "?r < length (map node_id (nodes c))" and "e < length (map node_id (nodes c))"
    by simp_all
  moreover have "(map node_id (nodes c) ! ?r = map node_id (nodes c) ! e) = (?r = e)"
    using r e by (intro nth_eq_iff_index_eq [OF d]) simp_all
  ultimately have "?r = e" by blast
  with nn show ?thesis by simp
qed

subsection \<open>What the operations keep\<close>

lemma filterConnectorsByTestScope_le:
  "0 \<le> endConnectorIndex c \<Longrightarrow> k \<in> set (filterConnectorsByTestScope c ks) \<Longrightarrow>
   k \<le> endConnectorIndex c"
  by (auto simp: filterConnectorsByTestScope_def Let_def split: if_splits)

lemma set_obj_replace: "set (obj_replace k v obj) \<subseteq> insert (k, v) (set obj)"
  by (induction obj) auto

lemma set_obj_insert: "set (obj_insert k v obj) = insert (k, v) (set obj)"
  by (induction obj) auto

lemma set_obj_put: "set (obj_put k v obj) \<subseteq> insert (k, v) (set obj)"
  using set_obj_replace [of k v obj] set_obj_insert [of k v obj]
  by (auto simp: obj_put_def)

lemma obj_put_all:
  "\<forall>p\<in>set obj. P (snd p) \<Longrightarrow> P v \<Longrightarrow> \<forall>p\<in>set (obj_put k v obj). P (snd p)"
  using set_obj_put [of k v obj] by fastforce

lemma put_highlight_le:
  assumes "0 \<le> endConnectorIndex c"
    and "\<forall>p\<in>set obj. \<forall>k\<in>set (connectors (snd p)). k \<le> endConnectorIndex c"
  shows "\<forall>p\<in>set (put_highlight c h obj). \<forall>k\<in>set (connectors (snd p)). k \<le> endConnectorIndex c"
proof (cases "\<exists>sid k ks. scenarioId h = Some sid \<and> connectors_in h = Some (k # ks) \<and> sid \<noteq> []")
  case True
  then obtain sid k ks where h: "scenarioId h = Some sid" "connectors_in h = Some (k # ks)"
    "sid \<noteq> []" by blast
  let ?v = "\<lparr>status = (case status_in h of Some st \<Rightarrow> st | None \<Rightarrow> NotRun),
             connectors = filterConnectorsByTestScope c (k # ks)\<rparr>"
  have "\<forall>k\<in>set (connectors ?v). k \<le> endConnectorIndex c"
    using filterConnectorsByTestScope_le [OF assms(1)] by simp
  from obj_put_all [where P = "\<lambda>h. \<forall>k\<in>set (connectors h). k \<le> endConnectorIndex c",
      OF assms(2) this]
  show ?thesis using h by (simp add: put_highlight_def)
next
  case False
  then have "put_highlight c h obj = obj"
    by (auto simp: put_highlight_def split: option.splits list.splits)
  with assms(2) show ?thesis by simp
qed

lemma fold_put_highlight_le:
  assumes "0 \<le> endConnectorIndex c"
  shows "\<forall>p\<in>set obj. \<forall>k\<in>set (connectors (snd p)). k \<le> endConnectorIndex c \<Longrightarrow>
         \<forall>p\<in>set (fold (put_highlight c) hs obj).
            \<forall>k\<in>set (connectors (snd p)). k \<le> endConnectorIndex c"
proof (induction hs arbitrary: obj)
  case Nil
  then show ?case by simp
next
  case (Cons h hs)
  from put_highlight_le [OF assms Cons.prems, of h] Cons.IH show ?case by simp
qed

lemma set_fold_obj_delete: "set (fold obj_delete ids obj) \<subseteq> set obj"
proof (induction ids arbitrary: obj)
  case Nil
  then show ?case by simp
next
  case (Cons a ids)
  have "set (fold obj_delete ids (obj_delete a obj)) \<subseteq> set (obj_delete a obj)"
    by (rule Cons.IH)
  also have "\<dots> \<subseteq> set obj" by (auto simp: obj_delete_def)
  finally show ?case by simp
qed

lemma setExecutionPath_lt:
  assumes "0 \<le> endConnectorIndex c" and "i \<in> set (executionPath (setExecutionPath xs c))"
  shows "i < endConnectorIndex c"
proof (cases "xs = []")
  case True
  with assms(2) show ?thesis by (simp add: setExecutionPath_def)
next
  case False
  with assms show ?thesis by (simp add: setExecutionPath_def Let_def)
qed

lemma scope_inv_same_scope:
  assumes inv: "scope_inv c"
    and e: "endConnectorIndex c' = endConnectorIndex c"
    and p: "0 \<le> endConnectorIndex c \<Longrightarrow> \<forall>i\<in>set (executionPath c'). i < endConnectorIndex c"
    and h: "0 \<le> endConnectorIndex c \<Longrightarrow>
            \<forall>q\<in>set (pathHighlights c'). \<forall>k\<in>set (connectors (snd q)). k \<le> endConnectorIndex c"
  shows "scope_inv c'"
  unfolding scope_inv_def e using p h by blast

lemma scope_inv_cleared:
  assumes "executionPath c' = []" and "pathHighlights c' = []"
  shows "scope_inv c'"
  unfolding scope_inv_def assms by simp

lemma scope_inv_path:
  "scope_inv c \<Longrightarrow> 0 \<le> endConnectorIndex c \<Longrightarrow> \<forall>i\<in>set (executionPath c). i < endConnectorIndex c"
  unfolding scope_inv_def by blast

lemma scope_inv_highlights:
  "scope_inv c \<Longrightarrow> 0 \<le> endConnectorIndex c \<Longrightarrow>
   \<forall>q\<in>set (pathHighlights c). \<forall>k\<in>set (connectors (snd q)). k \<le> endConnectorIndex c"
  unfolding scope_inv_def by blast

lemma scope_inv_setExecutionPath:
  assumes inv: "scope_inv c"
  shows "scope_inv (setExecutionPath xs c)"
proof (rule scope_inv_same_scope [OF inv])
  show "endConnectorIndex (setExecutionPath xs c) = endConnectorIndex c"
    by (rule endConnectorIndex_cong) (simp_all add: setExecutionPath_def Let_def)
next
  assume "0 \<le> endConnectorIndex c"
  then show "\<forall>i\<in>set (executionPath (setExecutionPath xs c)). i < endConnectorIndex c"
    using setExecutionPath_lt by blast
next
  assume e: "0 \<le> endConnectorIndex c"
  have "pathHighlights (setExecutionPath xs c) = pathHighlights c"
    by (simp add: setExecutionPath_def Let_def)
  with scope_inv_highlights [OF inv e]
  show "\<forall>q\<in>set (pathHighlights (setExecutionPath xs c)).
          \<forall>k\<in>set (connectors (snd q)). k \<le> endConnectorIndex c" by simp
qed

lemma scope_inv_setPathHighlights:
  assumes inv: "scope_inv c"
  shows "scope_inv (setPathHighlights hs c)"
proof (rule scope_inv_same_scope [OF inv])
  show "endConnectorIndex (setPathHighlights hs c) = endConnectorIndex c"
    by (rule endConnectorIndex_cong) (simp_all add: setPathHighlights_def)
next
  assume e: "0 \<le> endConnectorIndex c"
  have "executionPath (setPathHighlights hs c) = executionPath c"
    by (simp add: setPathHighlights_def)
  with scope_inv_path [OF inv e]
  show "\<forall>i\<in>set (executionPath (setPathHighlights hs c)). i < endConnectorIndex c" by simp
next
  assume e: "0 \<le> endConnectorIndex c"
  have h: "pathHighlights (setPathHighlights hs c) = fold (put_highlight c) hs []"
    by (simp add: setPathHighlights_def)
  have "\<forall>q\<in>set ([] :: (string \<times> highlight) list).
          \<forall>k\<in>set (connectors (snd q)). k \<le> endConnectorIndex c" by simp
  from fold_put_highlight_le [OF e this]
  show "\<forall>q\<in>set (pathHighlights (setPathHighlights hs c)).
          \<forall>k\<in>set (connectors (snd q)). k \<le> endConnectorIndex c"
    unfolding h .
qed

lemma scope_inv_clearPathHighlights:
  assumes inv: "scope_inv c"
  shows "scope_inv (clearPathHighlights ids c)"
proof (rule scope_inv_same_scope [OF inv])
  show "endConnectorIndex (clearPathHighlights ids c) = endConnectorIndex c"
    by (rule endConnectorIndex_cong) (simp_all add: clearPathHighlights_def split: option.splits)
next
  assume e: "0 \<le> endConnectorIndex c"
  have "executionPath (clearPathHighlights ids c) = executionPath c"
    by (simp add: clearPathHighlights_def split: option.splits)
  with scope_inv_path [OF inv e]
  show "\<forall>i\<in>set (executionPath (clearPathHighlights ids c)). i < endConnectorIndex c" by simp
next
  assume e: "0 \<le> endConnectorIndex c"
  have "set (pathHighlights (clearPathHighlights ids c)) \<subseteq> set (pathHighlights c)"
  proof (cases ids)
    case None
    then show ?thesis by (simp add: clearPathHighlights_def)
  next
    case (Some xs)
    then show ?thesis by (simp add: clearPathHighlights_def set_fold_obj_delete)
  qed
  with scope_inv_highlights [OF inv e]
  show "\<forall>q\<in>set (pathHighlights (clearPathHighlights ids c)).
          \<forall>k\<in>set (connectors (snd q)). k \<le> endConnectorIndex c" by blast
qed

lemma scope_inv_clearTestStartPoint:
  assumes inv: "scope_inv c" and ns: "\<not> shadowed c"
  shows "scope_inv (clearTestStartPoint c)"
proof (rule scope_inv_same_scope [OF inv])
  show "endConnectorIndex (clearTestStartPoint c) = endConnectorIndex c"
    by (rule endConnectorIndex_clearTestStartPoint [OF ns])
next
  assume e: "0 \<le> endConnectorIndex c"
  have "executionPath (clearTestStartPoint c) = executionPath c"
    by (simp add: clearTestStartPoint_def)
  with scope_inv_path [OF inv e]
  show "\<forall>i\<in>set (executionPath (clearTestStartPoint c)). i < endConnectorIndex c" by simp
next
  assume e: "0 \<le> endConnectorIndex c"
  have "pathHighlights (clearTestStartPoint c) = pathHighlights c"
    by (simp add: clearTestStartPoint_def)
  with scope_inv_highlights [OF inv e]
  show "\<forall>q\<in>set (pathHighlights (clearTestStartPoint c)).
          \<forall>k\<in>set (connectors (snd q)). k \<le> endConnectorIndex c" by simp
qed

lemma scope_inv_clearTestEndPoint: "scope_inv (clearTestEndPoint c)"
proof -
  have "endConnectorIndex (clearTestEndPoint c) = - 1"
    by (rule endConnectorIndex_no_end) (simp add: clearTestEndPoint_def)
  then show ?thesis unfolding scope_inv_def by simp
qed

lemma scope_inv_step:
  assumes inv: "scope_inv c" and ns: "\<not> shadowed c"
  shows "scope_inv (canvas_step x c)"
proof (cases x)
  case (SetExecutionPath xs)
  then show ?thesis by (simp add: scope_inv_setExecutionPath [OF inv])
next
  case (SetPathHighlights hs)
  then show ?thesis by (simp add: scope_inv_setPathHighlights [OF inv])
next
  case (ClearPathHighlights ids)
  then show ?thesis by (simp add: scope_inv_clearPathHighlights [OF inv])
next
  case ClearExecutionPath
  have "scope_inv (clearExecutionPath c)"
    by (rule scope_inv_cleared) (simp_all add: clearExecutionPath_def)
  with ClearExecutionPath show ?thesis by simp
next
  case (SetTestStartPoint n)
  have "scope_inv (setTestStartPoint n c)"
    by (rule scope_inv_cleared)
      (simp_all add: setTestStartPoint_def handleStartEndPointChange_def clearExecutionPath_def)
  with SetTestStartPoint show ?thesis by simp
next
  case (SetTestEndPoint n)
  have "scope_inv (setTestEndPoint n c)"
    by (rule scope_inv_cleared)
      (simp_all add: setTestEndPoint_def handleStartEndPointChange_def clearExecutionPath_def)
  with SetTestEndPoint show ?thesis by simp
next
  case RemoveTestStartPoint
  have "scope_inv (removeTestStartPoint c)"
    by (rule scope_inv_cleared)
      (simp_all add: removeTestStartPoint_def handleStartEndPointChange_def clearExecutionPath_def)
  with RemoveTestStartPoint show ?thesis by simp
next
  case (RemoveTestEndPoint n)
  have "scope_inv (removeTestEndPoint n c)"
    by (rule scope_inv_cleared)
      (simp_all add: removeTestEndPoint_def handleStartEndPointChange_def clearExecutionPath_def)
  with RemoveTestEndPoint show ?thesis by simp
next
  case ClearTestStartPoint
  then show ?thesis by (simp add: scope_inv_clearTestStartPoint [OF inv ns])
next
  case ClearTestEndPoint
  then show ?thesis by (simp add: scope_inv_clearTestEndPoint)
qed

lemma nodes_setExecutionPath: "nodes (setExecutionPath xs c) = nodes c"
  by (simp add: setExecutionPath_def Let_def)

lemma nodes_clearPathHighlights: "nodes (clearPathHighlights ids c) = nodes c"
  by (cases ids) (simp_all add: clearPathHighlights_def)

lemma nodes_step: "nodes (canvas_step x c) = nodes c"
  by (cases x)
    (simp_all add: nodes_setExecutionPath nodes_clearPathHighlights setPathHighlights_def
      clearExecutionPath_def setTestStartPoint_def setTestEndPoint_def removeTestStartPoint_def
      removeTestEndPoint_def clearTestStartPoint_def clearTestEndPoint_def
      handleStartEndPointChange_def)

lemma nodes_run: "nodes (run_canvas ops c) = nodes c"
  by (induction ops arbitrary: c) (simp_all add: nodes_step)

lemma scope_inv_run:
  "scope_inv c \<Longrightarrow> never_shadowed ops c \<Longrightarrow>
   scope_inv (run_canvas ops c) \<and> \<not> shadowed (run_canvas ops c)"
proof (induction ops arbitrary: c)
  case Nil
  then show ?case by simp
next
  case (Cons x xs)
  from Cons.prems have "scope_inv (canvas_step x c)" "never_shadowed xs (canvas_step x c)"
    by (simp_all add: scope_inv_step)
  from Cons.IH [OF this] show ?case by simp
qed

lemma scope_inv_new: "scope_inv (new_canvas ns)"
  by (rule scope_inv_cleared) (simp_all add: new_canvas_def)

section \<open>Path highlights\<close>

lemma filterConnectorsByTestScope_cong:
  assumes "nodes c' = nodes c" and "testStartPoint c' = testStartPoint c"
    and "testEndPoint c' = testEndPoint c"
  shows "filterConnectorsByTestScope c' = filterConnectorsByTestScope c"
  unfolding filterConnectorsByTestScope_def
    startConnectorIndex_cong [OF assms] endConnectorIndex_cong [OF assms] by (rule refl)

lemma put_highlight_cong:
  assumes "nodes c' = nodes c" and "testStartPoint c' = testStartPoint c"
    and "testEndPoint c' = testEndPoint c"
  shows "put_highlight c' = put_highlight c"
  unfolding put_highlight_def filterConnectorsByTestScope_cong [OF assms] by (rule refl)

text \<open>
  C9.  \<open>setPathHighlights\<close> is idempotent: a second call with the same list, the nodes and
  the scope unchanged in between, leaves the state, and so the stored highlights and the
  styles of all connector lines, exactly as the first call left them.
\<close>

theorem setPathHighlights_idempotent:
  "setPathHighlights hs (setPathHighlights hs c) = setPathHighlights hs c
   \<and> pathHighlights (setPathHighlights hs (setPathHighlights hs c))
       = pathHighlights (setPathHighlights hs c)
   \<and> updateConnectorStyles (setPathHighlights hs (setPathHighlights hs c))
       = updateConnectorStyles (setPathHighlights hs c)"
proof -
  have "put_highlight (setPathHighlights hs c) = put_highlight c"
    by (rule put_highlight_cong) (simp_all add: setPathHighlights_def)
  then have "setPathHighlights hs (setPathHighlights hs c) = setPathHighlights hs c"
    by (simp add: setPathHighlights_def)
  then show ?thesis by simp
qed

lemma style_plain_after_end:
  "b = None \<Longrightarrow> 0 \<le> endConnectorIndex c \<Longrightarrow> endConnectorIndex c < i \<Longrightarrow>
   active_line (style_connector c i b) = clearPathHighlightStyles"
  by (simp add: active_line_style)

lemma active_line_in_scope:
  "\<not> (0 \<le> endConnectorIndex c \<and> endConnectorIndex c < i) \<Longrightarrow>
   active_line (style_connector c i b)
   = applyPathHighlightStyles (connectorStatusMap c i)
       (executionPath c \<noteq> [] \<and> i \<in> set (executionPath c))"
  by (auto simp: active_line_style)

lemma line_statuses_cleared: "line_statuses clearPathHighlightStyles = {}"
  by (simp add: line_statuses_def clearPathHighlightStyles_def)

lemma finite_touching: "finite (touching c i)"
proof -
  have "touching c i \<subseteq> (\<lambda>p. status (snd p)) ` set (pathHighlights c)"
    by (auto simp: touching_def) force
  then show ?thesis by (rule finite_subset) simp
qed

lemma touching_setPathHighlights_after_end:
  assumes "0 \<le> endConnectorIndex c" and "endConnectorIndex c < i"
  shows "touching (setPathHighlights hs c) i = {}"
proof -
  have "\<forall>q\<in>set ([] :: (string \<times> highlight) list).
          \<forall>k\<in>set (connectors (snd q)). k \<le> endConnectorIndex c" by simp
  from fold_put_highlight_le [OF assms(1) this, of hs]
  have "\<forall>q\<in>set (pathHighlights (setPathHighlights hs c)).
          \<forall>k\<in>set (connectors (snd q)). k \<le> endConnectorIndex c"
    by (simp add: setPathHighlights_def)
  with assms(2) show ?thesis by (fastforce simp: touching_def)
qed

lemma line_statuses_active:
  assumes "0 \<le> endConnectorIndex c \<and> endConnectorIndex c < i \<longrightarrow> touching c i = {}"
  shows "line_statuses (active_line (style_connector c i b)) = touching c i"
proof (cases "b = None \<and> 0 \<le> endConnectorIndex c \<and> endConnectorIndex c < i")
  case True
  with assms show ?thesis by (simp add: active_line_style line_statuses_cleared)
next
  case False
  then have "active_line (style_connector c i b)
             = applyPathHighlightStyles (connectorStatusMap c i)
                 (\<not> (0 \<le> endConnectorIndex c \<and> endConnectorIndex c < i)
                  \<and> executionPath c \<noteq> [] \<and> i \<in> set (executionPath c))"
    unfolding active_line_style by (rule if_not_P)
  then show ?thesis
    by (simp only: line_statuses_apply set_connectorStatusMap)
qed

section \<open>Compositing of scenario statuses and the legacy path\<close>

lemma nth_style:
  "i < length (flow_connectors c) \<Longrightarrow>
   updateConnectorStyles c ! i = style_connector c (int i) (flow_connectors c ! i)"
  by (rule nth_updateConnectorStyles)

text \<open>
  C6.  The line of a connector that can carry a highlight (any connector not after the end
  badge) shows exactly the distinct statuses of the scenario highlights that touch the
  connector.  One distinct status gives a single-status line: that status class alone, no
  attribute.  Two or more give a multi-status line: the class \<open>flow-connector-line-multi\<close>
  and the attribute holding the sorted status names.  Right after \<open>setPathHighlights\<close> this
  holds for every connector.  Two scenarios on connector 2, one passed and one failed, give
  the status set \<open>{passed, failed}\<close> in either input order.
\<close>

theorem connector_status_set:
  "(i < length (flow_connectors c)
      \<and> \<not> (0 \<le> endConnectorIndex c \<and> endConnectorIndex c < int i) \<longrightarrow>
      line_statuses (active_line (updateConnectorStyles c ! i)) = touching c (int i)
      \<and> (card (touching c (int i)) = 1 \<longrightarrow>
            active_line (updateConnectorStyles c ! i)
            = \<lparr>classList = [status_class (the_elem (touching c (int i)))], pathStatuses = None\<rparr>)
      \<and> (2 \<le> card (touching c (int i)) \<longrightarrow>
            ''flow-connector-line-multi'' \<in> set (classList (active_line (updateConnectorStyles c ! i)))
            \<and> pathStatuses (active_line (updateConnectorStyles c ! i))
                = Some (join_comma (sorted_list_of_set (status_name ` touching c (int i))))))
   \<and> (i < length (flow_connectors c) \<longrightarrow>
      line_statuses (active_line (updateConnectorStyles (setPathHighlights hs c) ! i))
      = touching (setPathHighlights hs c) (int i))
   \<and> line_statuses (active_line (updateConnectorStyles
         (setPathHighlights [scenario ''A'' Passed [2], scenario ''B'' Failed [2]]
            (new_canvas getDefaultNodes)) ! 2)) = {Passed, Failed}
   \<and> line_statuses (active_line (updateConnectorStyles
         (setPathHighlights [scenario ''B'' Failed [2], scenario ''A'' Passed [2]]
            (new_canvas getDefaultNodes)) ! 2)) = {Passed, Failed}"
proof (intro conjI impI)
  assume a: "i < length (flow_connectors c)
             \<and> \<not> (0 \<le> endConnectorIndex c \<and> endConnectorIndex c < int i)"
  let ?L = "active_line (updateConnectorStyles c ! i)"
  let ?T = "touching c (int i)"
  from a have i: "i < length (flow_connectors c)"
    and ne: "\<not> (0 \<le> endConnectorIndex c \<and> endConnectorIndex c < int i)" by blast+
  have L: "?L = applyPathHighlightStyles (connectorStatusMap c (int i))
                        (executionPath c \<noteq> [] \<and> int i \<in> set (executionPath c))"
    unfolding nth_style [OF i] by (rule active_line_in_scope [OF ne])
  show "line_statuses ?L = ?T"
    by (simp only: L line_statuses_apply set_connectorStatusMap)
  {
    assume "card ?T = 1"
    then have "card (set (connectorStatusMap c (int i))) = 1"
      by (simp only: set_connectorStatusMap)
    from apply_single [OF this]
    show "?L = \<lparr>classList = [status_class (the_elem ?T)], pathStatuses = None\<rparr>"
      by (simp only: L set_connectorStatusMap)
  }
  {
    assume "2 \<le> card ?T"
    then have "2 \<le> card (set (connectorStatusMap c (int i)))"
      by (simp only: set_connectorStatusMap)
    from apply_multi [OF this, of "executionPath c \<noteq> [] \<and> int i \<in> set (executionPath c)"]
    have m: "classList ?L = ''flow-connector-line-multi''
                # map status_class (uniq (connectorStatusMap c (int i)))"
      and p: "pathStatuses ?L = Some (join_comma (sorted_list_of_set (status_name ` ?T)))"
      by (simp_all only: L set_connectorStatusMap)
    from m show "''flow-connector-line-multi'' \<in> set (classList ?L)" by simp
    from p show "pathStatuses ?L = Some (join_comma (sorted_list_of_set (status_name ` ?T)))" .
  }
next
  assume i: "i < length (flow_connectors c)"
  let ?c = "setPathHighlights hs c"
  have e: "endConnectorIndex ?c = endConnectorIndex c"
    by (rule endConnectorIndex_cong) (simp_all add: setPathHighlights_def)
  have f: "flow_connectors ?c = flow_connectors c"
    by (rule flow_connectors_cong) (simp_all add: setPathHighlights_def)
  from i have i': "i < length (flow_connectors ?c)" by (simp only: f)
  have "0 \<le> endConnectorIndex ?c \<and> endConnectorIndex ?c < int i \<longrightarrow> touching ?c (int i) = {}"
    unfolding e using touching_setPathHighlights_after_end by blast
  from line_statuses_active [OF this]
  show "line_statuses (active_line (updateConnectorStyles ?c ! i)) = touching ?c (int i)"
    by (simp only: nth_style [OF i'])
next
  let ?c = "setPathHighlights [scenario ''A'' Passed [2], scenario ''B'' Failed [2]]
              (new_canvas getDefaultNodes)"
  have "updateConnectorStyles ?c ! 2
        = Plain (applyPathHighlightStyles [Passed, Failed] False)" by code_simp
  then show "line_statuses (active_line (updateConnectorStyles ?c ! 2)) = {Passed, Failed}"
    by (auto simp: line_statuses_apply)
next
  let ?c = "setPathHighlights [scenario ''B'' Failed [2], scenario ''A'' Passed [2]]
              (new_canvas getDefaultNodes)"
  have "updateConnectorStyles ?c ! 2
        = Plain (applyPathHighlightStyles [Failed, Passed] False)" by code_simp
  then show "line_statuses (active_line (updateConnectorStyles ?c ! 2)) = {Passed, Failed}"
    by (auto simp: line_statuses_apply)
qed

theorem connector_status_set_witness:
  "2 < length (flow_connectors (setPathHighlights
        [scenario ''A'' Passed [2], scenario ''B'' Failed [2]] (new_canvas getDefaultNodes)))
   \<and> \<not> (0 \<le> endConnectorIndex (setPathHighlights
        [scenario ''A'' Passed [2], scenario ''B'' Failed [2]] (new_canvas getDefaultNodes))
        \<and> endConnectorIndex (setPathHighlights
        [scenario ''A'' Passed [2], scenario ''B'' Failed [2]] (new_canvas getDefaultNodes)) < 2)
   \<and> card (touching (setPathHighlights
        [scenario ''A'' Passed [2], scenario ''B'' Failed [2]] (new_canvas getDefaultNodes)) 2) = 2
   \<and> pathStatuses (active_line (updateConnectorStyles (setPathHighlights
        [scenario ''A'' Passed [2], scenario ''B'' Failed [2]] (new_canvas getDefaultNodes)) ! 2))
       = Some ''failed,passed''
   \<and> card (touching (setPathHighlights
        [scenario ''A'' Passed [2]] (new_canvas getDefaultNodes)) 2) = 1
   \<and> active_line (updateConnectorStyles (setPathHighlights
        [scenario ''A'' Passed [2]] (new_canvas getDefaultNodes)) ! 2)
       = \<lparr>classList = [''flow-connector-line-passed''], pathStatuses = None\<rparr>"
proof -
  let ?ab = "setPathHighlights [scenario ''A'' Passed [2], scenario ''B'' Failed [2]]
               (new_canvas getDefaultNodes)"
  let ?a = "setPathHighlights [scenario ''A'' Passed [2]] (new_canvas getDefaultNodes)"
  have len: "2 < length (flow_connectors ?ab)" "2 < length (flow_connectors ?a)"
    by code_simp+
  have e: "endConnectorIndex ?ab = - 1" "endConnectorIndex ?a = - 1" by code_simp+
  have "connectorStatusMap ?ab 2 = [Passed, Failed]" by code_simp
  then have tab: "touching ?ab 2 = {Passed, Failed}"
    using set_connectorStatusMap [of ?ab 2] by simp
  have "connectorStatusMap ?a 2 = [Passed]" by code_simp
  then have ta: "touching ?a 2 = {Passed}"
    using set_connectorStatusMap [of ?a 2] by simp
  have srt: "sorted_list_of_set (status_name ` {Passed, Failed}) = [''failed'', ''passed'']"
    by code_simp
  have cab: "card (touching ?ab 2) = 2" and ca: "card (touching ?a 2) = 1"
    by (simp_all add: tab ta)
  from connector_status_set [of 2 ?ab "[]"] len(1) e(1) cab
  have "pathStatuses (active_line (updateConnectorStyles ?ab ! 2))
        = Some (join_comma (sorted_list_of_set (status_name ` touching ?ab 2)))"
    by simp
  then have r1: "pathStatuses (active_line (updateConnectorStyles ?ab ! 2)) = Some ''failed,passed''"
    by (simp only: tab srt join_comma.simps append.simps)
  from connector_status_set [of 2 ?a "[]"] len(2) e(2) ca
  have "active_line (updateConnectorStyles ?a ! 2)
        = \<lparr>classList = [status_class (the_elem (touching ?a 2))], pathStatuses = None\<rparr>"
    by simp
  then have r2: "active_line (updateConnectorStyles ?a ! 2)
        = \<lparr>classList = [''flow-connector-line-passed''], pathStatuses = None\<rparr>"
    by (simp add: ta status_class_def)
  from len(1) e(1) cab r1 ca r2 show ?thesis by simp
qed

lemma executed_class_iff:
  assumes i: "i < length (flow_connectors c)"
  shows "''flow-connector-line-executed''
           \<in> set (classList (active_line (updateConnectorStyles c ! i)))
         \<longleftrightarrow> touching c (int i) = {} \<and> int i \<in> set (executionPath c)
             \<and> \<not> (0 \<le> endConnectorIndex c \<and> endConnectorIndex c < int i)"
proof -
  let ?b = "flow_connectors c ! i"
  let ?after = "0 \<le> endConnectorIndex c \<and> endConnectorIndex c < int i"
  let ?L = "active_line (updateConnectorStyles c ! i)"
  have st: "(connectorStatusMap c (int i) = []) = (touching c (int i) = {})"
    using set_connectorStatusMap [of c "int i"] by (metis set_empty)
  show ?thesis
  proof (cases "?b = None \<and> ?after")
    case True
    then have "?L = clearPathHighlightStyles"
      unfolding nth_style [OF i] by (simp add: style_plain_after_end)
    with True show ?thesis by (simp add: clearPathHighlightStyles_def)
  next
    case False
    then have "?L = applyPathHighlightStyles (connectorStatusMap c (int i))
                 (\<not> ?after \<and> executionPath c \<noteq> [] \<and> int i \<in> set (executionPath c))"
      unfolding nth_style [OF i] active_line_style by (rule if_not_P)
    then have "''flow-connector-line-executed'' \<in> set (classList ?L)
        \<longleftrightarrow> connectorStatusMap c (int i) = []
            \<and> (\<not> ?after \<and> executionPath c \<noteq> [] \<and> int i \<in> set (executionPath c))"
      by (simp only: executed_apply)
    also have "\<dots> \<longleftrightarrow> touching c (int i) = {} \<and> int i \<in> set (executionPath c) \<and> \<not> ?after"
      unfolding st by auto
    finally show ?thesis .
  qed
qed

text \<open>
  C8, amended.  Scenario statuses take precedence over the legacy execution path.  On a
  connector inside the scope, that is neither before the connector with the start badge
  nor after the connector with the end badge, that at least one scenario highlight touches,
  the line shows exactly the scenario statuses and not \<open>flow-connector-line-executed\<close>,
  also when the connector is in the execution path.  After the connector with the end
  badge the legacy status is never rendered.
\<close>

theorem scenario_statuses_take_precedence:
  "i < length (flow_connectors c) \<longrightarrow>
     (\<not> (0 \<le> startConnectorIndex c \<and> int i < startConnectorIndex c)
        \<and> \<not> (0 \<le> endConnectorIndex c \<and> endConnectorIndex c < int i)
        \<and> touching c (int i) \<noteq> {} \<longrightarrow>
         line_statuses (active_line (updateConnectorStyles c ! i)) = touching c (int i)
         \<and> ''flow-connector-line-executed''
              \<notin> set (classList (active_line (updateConnectorStyles c ! i))))
     \<and> (0 \<le> endConnectorIndex c \<and> endConnectorIndex c < int i \<longrightarrow>
         ''flow-connector-line-executed''
           \<notin> set (classList (active_line (updateConnectorStyles c ! i))))"
proof (intro impI conjI)
  assume i: "i < length (flow_connectors c)"
  {
    assume a: "\<not> (0 \<le> startConnectorIndex c \<and> int i < startConnectorIndex c)
        \<and> \<not> (0 \<le> endConnectorIndex c \<and> endConnectorIndex c < int i)
        \<and> touching c (int i) \<noteq> {}"
    then have "0 \<le> endConnectorIndex c \<and> endConnectorIndex c < int i
               \<longrightarrow> touching c (int i) = {}" by blast
    from line_statuses_active [OF this]
    show "line_statuses (active_line (updateConnectorStyles c ! i)) = touching c (int i)"
      by (simp only: nth_style [OF i])
    from a executed_class_iff [OF i]
    show "''flow-connector-line-executed''
            \<notin> set (classList (active_line (updateConnectorStyles c ! i)))" by blast
  }
  {
    assume "0 \<le> endConnectorIndex c \<and> endConnectorIndex c < int i"
    with executed_class_iff [OF i]
    show "''flow-connector-line-executed''
            \<notin> set (classList (active_line (updateConnectorStyles c ! i)))" by blast
  }
qed

text \<open>
  C8, as the specification states it, fails: with no bound set, connector 2 in the
  execution path and in a passed scenario is rendered passed only, without the legacy
  status.
\<close>

theorem legacy_executed_suppressed:
  "executionPath (setPathHighlights [scenario ''s1'' Passed [2]]
       (setExecutionPath [2] (new_canvas getDefaultNodes))) = [2]
   \<and> pathHighlights (setPathHighlights [scenario ''s1'' Passed [2]]
       (setExecutionPath [2] (new_canvas getDefaultNodes)))
       = [(''s1'', \<lparr>status = Passed, connectors = [2]\<rparr>)]
   \<and> getTestScope (setPathHighlights [scenario ''s1'' Passed [2]]
       (setExecutionPath [2] (new_canvas getDefaultNodes)))
       = [''start'', ''create-task'', ''update-case'', ''send-email'', ''end'']
   \<and> updateConnectorStyles (setPathHighlights [scenario ''s1'' Passed [2]]
       (setExecutionPath [2] (new_canvas getDefaultNodes))) ! 2
       = Plain \<lparr>classList = [''flow-connector-line-passed''], pathStatuses = None\<rparr>"
  by code_simp

theorem scenario_statuses_take_precedence_witness:
  "2 < length (flow_connectors (setPathHighlights [scenario ''s1'' Passed [2]]
       (setExecutionPath [2] (new_canvas getDefaultNodes))))
   \<and> startConnectorIndex (setPathHighlights [scenario ''s1'' Passed [2]]
       (setExecutionPath [2] (new_canvas getDefaultNodes))) = - 1
   \<and> endConnectorIndex (setPathHighlights [scenario ''s1'' Passed [2]]
       (setExecutionPath [2] (new_canvas getDefaultNodes))) = - 1
   \<and> touching (setPathHighlights [scenario ''s1'' Passed [2]]
       (setExecutionPath [2] (new_canvas getDefaultNodes))) 2 \<noteq> {}
   \<and> 2 \<in> set (executionPath (setPathHighlights [scenario ''s1'' Passed [2]]
       (setExecutionPath [2] (new_canvas getDefaultNodes))))
   \<and> ''flow-connector-line-executed''
        \<notin> set (classList (active_line (updateConnectorStyles
              (setPathHighlights [scenario ''s1'' Passed [2]]
                 (setExecutionPath [2] (new_canvas getDefaultNodes))) ! 2)))
   \<and> line_statuses (active_line (updateConnectorStyles
              (setPathHighlights [scenario ''s1'' Passed [2]]
                 (setExecutionPath [2] (new_canvas getDefaultNodes))) ! 2)) = {Passed}
   \<and> endConnectorIndex (run_canvas [SetTestEndPoint ''create-task'',
          SetTestStartPoint ''update-case'', SetExecutionPath [0, 1, 2, 3], ClearTestStartPoint]
          (new_canvas getDefaultNodes)) = 1
   \<and> 2 \<in> set (executionPath (run_canvas [SetTestEndPoint ''create-task'',
          SetTestStartPoint ''update-case'', SetExecutionPath [0, 1, 2, 3], ClearTestStartPoint]
          (new_canvas getDefaultNodes)))
   \<and> ''flow-connector-line-executed''
        \<notin> set (classList (active_line (updateConnectorStyles
              (run_canvas [SetTestEndPoint ''create-task'', SetTestStartPoint ''update-case'',
                 SetExecutionPath [0, 1, 2, 3], ClearTestStartPoint]
                 (new_canvas getDefaultNodes)) ! 2)))"
proof -
  let ?c = "setPathHighlights [scenario ''s1'' Passed [2]]
              (setExecutionPath [2] (new_canvas getDefaultNodes))"
  let ?k = "run_canvas [SetTestEndPoint ''create-task'', SetTestStartPoint ''update-case'',
              SetExecutionPath [0, 1, 2, 3], ClearTestStartPoint] (new_canvas getDefaultNodes)"
  have len: "2 < length (flow_connectors ?c)" "2 < length (flow_connectors ?k)" by code_simp+
  have s: "startConnectorIndex ?c = - 1" by code_simp
  have e: "endConnectorIndex ?c = - 1" by code_simp
  have p: "2 \<in> set (executionPath ?c)" by code_simp
  have "connectorStatusMap ?c 2 = [Passed]" by code_simp
  then have t: "touching ?c 2 = {Passed}"
    using set_connectorStatusMap [of ?c 2] by simp
  have ek: "endConnectorIndex ?k = 1" by code_simp
  have pk: "2 \<in> set (executionPath ?k)" by code_simp
  from scenario_statuses_take_precedence [of 2 ?c] len(1) s e t
  have r: "line_statuses (active_line (updateConnectorStyles ?c ! 2)) = touching ?c 2
        \<and> ''flow-connector-line-executed''
             \<notin> set (classList (active_line (updateConnectorStyles ?c ! 2)))"
    by simp
  from scenario_statuses_take_precedence [of 2 ?k] len(2) ek
  have rk: "''flow-connector-line-executed''
             \<notin> set (classList (active_line (updateConnectorStyles ?k ! 2)))"
    by simp
  from len(1) s e t p r ek pk rk show ?thesis by simp
qed

text \<open>
  Before the connector with the start badge the styling applies no trim of its own.  With
  the start point on \<open>update-case\<close> the scope is \<open>update-case\<close>, \<open>send-email\<close>, \<open>end\<close>;
  \<open>setExecutionPath [0]\<close> adds the connectors after the start badge and keeps index 0, and
  connector 0, between \<open>start\<close> and \<open>create-task\<close>, is rendered executed.
\<close>

lemma legacy_executed_before_start:
  "getTestScope (setExecutionPath [0] (setTestStartPoint ''update-case''
       (new_canvas getDefaultNodes))) = [''update-case'', ''send-email'', ''end'']
   \<and> startConnectorIndex (setExecutionPath [0] (setTestStartPoint ''update-case''
       (new_canvas getDefaultNodes))) = 1
   \<and> executionPath (setExecutionPath [0] (setTestStartPoint ''update-case''
       (new_canvas getDefaultNodes))) = [0, 2, 3]
   \<and> updateConnectorStyles (setExecutionPath [0] (setTestStartPoint ''update-case''
       (new_canvas getDefaultNodes))) ! 0
       = Plain \<lparr>classList = [''flow-connector-line-executed''], pathStatuses = None\<rparr>"
  by code_simp

section \<open>The end badge and the execution path\<close>

lemma lines_of_style:
  assumes "l \<in> set (lines_of (style_connector c i b))"
  shows "l = clearPathHighlightStyles
         \<or> (l = applyPathHighlightStyles (connectorStatusMap c i)
                  (\<not> (0 \<le> endConnectorIndex c \<and> endConnectorIndex c < i)
                   \<and> executionPath c \<noteq> [] \<and> i \<in> set (executionPath c))
             \<and> \<not> (b = None \<and> 0 \<le> endConnectorIndex c \<and> endConnectorIndex c < i))"
proof (cases b)
  case None
  with assms show ?thesis
    by (auto simp: style_connector_def Let_def split: if_splits cong: conj_cong)
next
  case (Some bt)
  with assms show ?thesis
    by (cases bt) (auto simp: style_connector_def Let_def cong: conj_cong)
qed

lemma apply_nothing: "applyPathHighlightStyles [] False = clearPathHighlightStyles"
  by (simp add: applyPathHighlightStyles_def)

lemma executed_not_cleared:
  "''flow-connector-line-executed'' \<notin> set (classList clearPathHighlightStyles)"
  by (simp add: clearPathHighlightStyles_def)

text \<open>
  C7, amended.  Take nodes with distinct ids and any sequence of \<open>setExecutionPath\<close>,
  \<open>setPathHighlights\<close>, \<open>clearPathHighlights\<close>, \<open>clearExecutionPath\<close> and scope operations,
  from the constructor's state, during which the start point is never the node right after
  the end point.  If afterwards the end point is the node above connector \<open>e\<close>, then no line
  of connector \<open>e\<close> or of a later connector carries \<open>flow-connector-line-executed\<close>, and the
  lines of the connectors strictly after \<open>e\<close> carry no highlight at all.
\<close>

theorem end_bound_never_executed:
  assumes d: "distinct (map node_id ns)"
    and nsh: "never_shadowed ops (new_canvas ns)"
    and e: "e < length ns - 1"
    and ep: "testEndPoint (run_canvas ops (new_canvas ns)) = Some (node_id (ns ! e))"
    and ej: "e \<le> j" and j: "j < length ns - 1"
  shows "\<forall>l\<in>set (lines_of (updateConnectorStyles (run_canvas ops (new_canvas ns)) ! j)).
           ''flow-connector-line-executed'' \<notin> set (classList l)
           \<and> (e < j \<longrightarrow> l = clearPathHighlightStyles)"
proof
  let ?c = "run_canvas ops (new_canvas ns)"
  fix l
  assume l: "l \<in> set (lines_of (updateConnectorStyles ?c ! j))"
  have n: "nodes ?c = ns" by (simp add: nodes_run new_canvas_def)
  from scope_inv_run [OF scope_inv_new nsh] have inv: "scope_inv ?c" and ns: "\<not> shadowed ?c"
    by simp_all
  from d e ep have E: "endConnectorIndex ?c = int e"
    by (intro endConnectorIndex_end_point ns) (simp_all add: n)
  then have E0: "0 \<le> endConnectorIndex ?c" by simp
  from j have jl: "j < length (flow_connectors ?c)" by (simp add: n)
  from l have "l \<in> set (lines_of (style_connector ?c (int j) (flow_connectors ?c ! j)))"
    by (simp only: nth_updateConnectorStyles [OF jl])
  from lines_of_style [OF this]
  have cases: "l = clearPathHighlightStyles
      \<or> l = applyPathHighlightStyles (connectorStatusMap ?c (int j))
               (\<not> (0 \<le> endConnectorIndex ?c \<and> endConnectorIndex ?c < int j)
                \<and> executionPath ?c \<noteq> [] \<and> int j \<in> set (executionPath ?c))"
    by blast
  have notin: "int j \<notin> set (executionPath ?c) \<or> int e < int j"
    using scope_inv_path [OF inv E0] E ej by force
  have flag: "\<not> (\<not> (0 \<le> endConnectorIndex ?c \<and> endConnectorIndex ?c < int j)
                \<and> executionPath ?c \<noteq> [] \<and> int j \<in> set (executionPath ?c))"
    using notin E by auto
  show "''flow-connector-line-executed'' \<notin> set (classList l)
        \<and> (e < j \<longrightarrow> l = clearPathHighlightStyles)"
  proof (intro conjI impI)
    from cases show "''flow-connector-line-executed'' \<notin> set (classList l)"
    proof
      assume "l = clearPathHighlightStyles"
      then show ?thesis by (simp add: executed_not_cleared)
    next
      assume "l = applyPathHighlightStyles (connectorStatusMap ?c (int j))
               (\<not> (0 \<le> endConnectorIndex ?c \<and> endConnectorIndex ?c < int j)
                \<and> executionPath ?c \<noteq> [] \<and> int j \<in> set (executionPath ?c))"
      with flag show ?thesis by (simp only: executed_apply) blast
    qed
  next
    assume lt: "e < j"
    have "touching ?c (int j) = {}"
      using scope_inv_highlights [OF inv E0] E lt by (fastforce simp: touching_def)
    then have "connectorStatusMap ?c (int j) = []"
      using set_connectorStatusMap [of ?c "int j"] by simp
    with cases flag show "l = clearPathHighlightStyles"
      by (auto simp: apply_nothing)
  qed
qed

theorem end_bound_never_executed_witness:
  "distinct (map node_id getDefaultNodes)
   \<and> never_shadowed
        [SetTestEndPoint ''update-case'', SetExecutionPath [0, 1, 2, 3],
         SetPathHighlights [scenario ''A'' Passed [0, 1, 2, 3]]] (new_canvas getDefaultNodes)
   \<and> testEndPoint (run_canvas
        [SetTestEndPoint ''update-case'', SetExecutionPath [0, 1, 2, 3],
         SetPathHighlights [scenario ''A'' Passed [0, 1, 2, 3]]] (new_canvas getDefaultNodes))
       = Some (node_id (getDefaultNodes ! 2))
   \<and> ''flow-connector-line-executed''
        \<notin> set (concat (map classList (lines_of (updateConnectorStyles (run_canvas
        [SetTestEndPoint ''update-case'', SetExecutionPath [0, 1, 2, 3],
         SetPathHighlights [scenario ''A'' Passed [0, 1, 2, 3]]] (new_canvas getDefaultNodes)) ! 2))))
   \<and> lines_of (updateConnectorStyles (run_canvas
        [SetTestEndPoint ''update-case'', SetExecutionPath [0, 1, 2, 3],
         SetPathHighlights [scenario ''A'' Passed [0, 1, 2, 3]]] (new_canvas getDefaultNodes)) ! 3)
       = [clearPathHighlightStyles]"
proof -
  let ?ops = "[SetTestEndPoint ''update-case'', SetExecutionPath [0, 1, 2, 3],
               SetPathHighlights [scenario ''A'' Passed [0, 1, 2, 3]]]"
  let ?U = "updateConnectorStyles (run_canvas ?ops (new_canvas getDefaultNodes))"
  have d: "distinct (map node_id getDefaultNodes)" by code_simp
  have n: "never_shadowed ?ops (new_canvas getDefaultNodes)" by code_simp
  have ep: "testEndPoint (run_canvas ?ops (new_canvas getDefaultNodes))
            = Some (node_id (getDefaultNodes ! 2))" by code_simp
  have len: "(2::nat) < length getDefaultNodes - 1" "(3::nat) < length getDefaultNodes - 1"
    by code_simp+
  from end_bound_never_executed [OF d n len(1) ep, of 2] len(1)
  have "\<forall>l\<in>set (lines_of (?U ! 2)). ''flow-connector-line-executed'' \<notin> set (classList l)"
    by simp
  then have a: "''flow-connector-line-executed''
                \<notin> set (concat (map classList (lines_of (?U ! 2))))"
    by auto
  from end_bound_never_executed [OF d n len(1) ep, of 3] len(2)
  have b: "\<forall>l\<in>set (lines_of (?U ! 3)). l = clearPathHighlightStyles"
    by simp
  have "length (lines_of (?U ! 3)) = 1" by code_simp
  then obtain x where x: "lines_of (?U ! 3) = [x]"
    by (cases "lines_of (?U ! 3)") auto
  with b have "x = clearPathHighlightStyles" by simp
  with x have b': "lines_of (?U ! 3) = [clearPathHighlightStyles]" by simp
  from d n ep a b' show ?thesis by blast
qed

text \<open>
  C7, as the specification states it, fails.  With the end point on \<open>create-task\<close> and the
  start point on the next node \<open>update-case\<close>, connector 1 gets the start badge only, no end
  badge is found, and \<open>setExecutionPath [0, 1, 2, 3]\<close> keeps all four indices: the line
  below the badge of connector 1 and connectors 2 and 3 are rendered executed.  Clearing
  the start point then shows the end badge on connector 1, whose line is still rendered
  executed.
\<close>

theorem shadowed_end_badge_executed:
  "testEndPoint (run_canvas [SetTestEndPoint ''create-task'', SetTestStartPoint ''update-case'',
       SetExecutionPath [0, 1, 2, 3]] (new_canvas getDefaultNodes)) = Some ''create-task''
   \<and> node_id (getDefaultNodes ! 1) = ''create-task''
   \<and> updateConnectorStyles (run_canvas [SetTestEndPoint ''create-task'',
       SetTestStartPoint ''update-case'', SetExecutionPath [0, 1, 2, 3]]
       (new_canvas getDefaultNodes)) ! 1
       = Badged StartBadge \<lparr>classList = [], pathStatuses = None\<rparr>
           \<lparr>classList = [''flow-connector-line-executed''], pathStatuses = None\<rparr>
   \<and> updateConnectorStyles (run_canvas [SetTestEndPoint ''create-task'',
       SetTestStartPoint ''update-case'', SetExecutionPath [0, 1, 2, 3]]
       (new_canvas getDefaultNodes)) ! 2
       = Plain \<lparr>classList = [''flow-connector-line-executed''], pathStatuses = None\<rparr>
   \<and> testStartPoint (run_canvas [SetTestEndPoint ''create-task'',
       SetTestStartPoint ''update-case'', SetExecutionPath [0, 1, 2, 3], ClearTestStartPoint]
       (new_canvas getDefaultNodes)) = None
   \<and> updateConnectorStyles (run_canvas [SetTestEndPoint ''create-task'',
       SetTestStartPoint ''update-case'', SetExecutionPath [0, 1, 2, 3], ClearTestStartPoint]
       (new_canvas getDefaultNodes)) ! 1
       = Badged EndBadge \<lparr>classList = [''flow-connector-line-executed''], pathStatuses = None\<rparr>
           \<lparr>classList = [], pathStatuses = None\<rparr>"
  by code_simp

section \<open>Setting the end point\<close>

lemma findIndex_nth_distinct:
  "distinct (map f xs) \<Longrightarrow> i < length xs \<Longrightarrow> findIndex (\<lambda>x. f x = f (xs ! i)) xs = int i"
proof (induction xs arbitrary: i)
  case Nil
  then show ?case by simp
next
  case (Cons x xs)
  show ?case
  proof (cases i)
    case 0
    then show ?thesis by simp
  next
    case (Suc k)
    with Cons.prems have k: "k < length xs" and dx: "distinct (map f xs)"
      and nx: "f x \<notin> f ` set xs" by simp_all
    from k nx have "f x \<noteq> f (xs ! k)" by (metis imageI nth_mem)
    moreover from Cons.IH [OF dx k] have "findIndex (\<lambda>y. f y = f (xs ! k)) xs = int k" .
    ultimately show ?thesis using Suc by (simp add: Let_def)
  qed
qed

text \<open>
  C3, amended.  The menu action that sets the end point leaves the state unchanged when
  the candidate node is immediately followed by a node of type \<open>end\<close> or by the current
  end point, whether or not the clicked item was disabled, and always when it was
  disabled.  The method \<open>setTestEndPoint\<close> itself has no such guard: it sets the end point
  to the node it is given and clears the execution path and the highlights.
\<close>

theorem menu_set_end_point_refuses:
  "(distinct (map node_id (nodes c)) \<and> Suc i < length (nodes c)
      \<and> (node_type (nodes c ! Suc i) = ''end''
          \<or> (truthy (testEndPoint c) \<and> testEndPoint c = Some (node_id (nodes c ! Suc i))))
      \<longrightarrow> menu_set_end_point disabled (node_id (nodes c ! i)) c = c)
   \<and> menu_set_end_point True nodeId c = c
   \<and> testEndPoint (setTestEndPoint nodeId c) = Some nodeId
   \<and> executionPath (setTestEndPoint nodeId c) = []
   \<and> pathHighlights (setTestEndPoint nodeId c) = []"
proof (intro conjI impI)
  assume a: "distinct (map node_id (nodes c)) \<and> Suc i < length (nodes c)
      \<and> (node_type (nodes c ! Suc i) = ''end''
          \<or> (truthy (testEndPoint c) \<and> testEndPoint c = Some (node_id (nodes c ! Suc i))))"
  then have d: "distinct (map node_id (nodes c))" and i: "Suc i < length (nodes c)" by blast+
  from i have i0: "i < length (nodes c)" by simp
  have cur: "findIndex (\<lambda>n. node_id n = node_id (nodes c ! i)) (nodes c) = int i"
    by (rule findIndex_nth_distinct [OF d i0])
  from i have nxt: "at_index (nodes c) (int i + 1) = Some (nodes c ! Suc i)"
    by (auto simp: at_index_def nat_add_distrib)
  from i have rng: "0 \<le> int i \<and> int i < int (length (nodes c)) - 1" by auto
  show "menu_set_end_point disabled (node_id (nodes c ! i)) c = c"
  proof (cases "node_type (nodes c ! Suc i) = ''end''")
    case True
    with cur nxt rng show ?thesis by (simp add: menu_set_end_point_def Let_def)
  next
    case False
    with a have t: "truthy (testEndPoint c)"
      and ep: "testEndPoint c = Some (node_id (nodes c ! Suc i))" by blast+
    have "findIndex (\<lambda>n. node_id n = node_id (nodes c ! Suc i)) (nodes c) = int (Suc i)"
      by (rule findIndex_nth_distinct [OF d i])
    then have "findIndex (\<lambda>n. Some (node_id n) = testEndPoint c) (nodes c) = int i + 1"
      by (simp add: ep)
    with cur nxt rng t False show ?thesis by (simp add: menu_set_end_point_def Let_def)
  qed
next
  show "menu_set_end_point True nodeId c = c" by (simp add: menu_set_end_point_def)
qed (simp_all add: setTestEndPoint_def handleStartEndPointChange_def clearExecutionPath_def)

theorem menu_set_end_point_refuses_witness:
  "distinct (map node_id (nodes (new_canvas getDefaultNodes)))
   \<and> Suc 3 < length (nodes (new_canvas getDefaultNodes))
   \<and> node_type (nodes (new_canvas getDefaultNodes) ! Suc 3) = ''end''
   \<and> node_id (nodes (new_canvas getDefaultNodes) ! 3) = ''send-email''
   \<and> menu_set_end_point False ''send-email'' (new_canvas getDefaultNodes)
       = new_canvas getDefaultNodes
   \<and> truthy (testEndPoint (setTestEndPoint ''send-email'' (new_canvas getDefaultNodes)))
   \<and> testEndPoint (setTestEndPoint ''send-email'' (new_canvas getDefaultNodes))
       = Some (node_id (nodes (setTestEndPoint ''send-email'' (new_canvas getDefaultNodes)) ! Suc 2))
   \<and> menu_set_end_point False ''update-case''
        (setTestEndPoint ''send-email'' (new_canvas getDefaultNodes))
       = setTestEndPoint ''send-email'' (new_canvas getDefaultNodes)"
proof -
  let ?c = "new_canvas getDefaultNodes"
  let ?c' = "setTestEndPoint ''send-email'' (new_canvas getDefaultNodes)"
  have d: "distinct (map node_id (nodes ?c))" "distinct (map node_id (nodes ?c'))"
    by code_simp+
  have l: "Suc 3 < length (nodes ?c)" "Suc 2 < length (nodes ?c')" by code_simp+
  have ty: "node_type (nodes ?c ! Suc 3) = ''end''" by code_simp
  have id3: "node_id (nodes ?c ! 3) = ''send-email''" by code_simp
  have id2: "node_id (nodes ?c' ! 2) = ''update-case''" by code_simp
  have t: "truthy (testEndPoint ?c')" by code_simp
  have ep: "testEndPoint ?c' = Some (node_id (nodes ?c' ! Suc 2))" by code_simp
  from menu_set_end_point_refuses [of ?c 3 False] d(1) l(1) ty
  have "menu_set_end_point False (node_id (nodes ?c ! 3)) ?c = ?c" by blast
  then have r1: "menu_set_end_point False ''send-email'' ?c = ?c" by (simp only: id3)
  from menu_set_end_point_refuses [of ?c' 2 False] d(2) l(2) t ep
  have "menu_set_end_point False (node_id (nodes ?c' ! 2)) ?c' = ?c'" by blast
  then have r2: "menu_set_end_point False ''update-case'' ?c' = ?c'" by (simp only: id2)
  from d(1) l(1) ty id3 r1 t ep r2 show ?thesis by blast
qed

text \<open>
  C3, as the specification states it, fails: \<open>send-email\<close> is immediately followed by the
  node of type \<open>end\<close>, and a direct call of \<open>setTestEndPoint\<close> makes it the end point.
\<close>

theorem setTestEndPoint_direct_not_refused:
  "node_id (getDefaultNodes ! 3) = ''send-email''
   \<and> node_type (getDefaultNodes ! 4) = ''end''
   \<and> testEndPoint (new_canvas getDefaultNodes) = None
   \<and> testEndPoint (setTestEndPoint ''send-email'' (new_canvas getDefaultNodes))
       = Some ''send-email''"
  by code_simp

section \<open>The gap between the panels during a drag\<close>

lemma handleMouseMove_open:
  assumes "isDragging d" and "otherPanelContainer e = Some other" and "hasOpenClass other"
  shows "handleMouseMove pos d e
         = Some \<lparr>thisWidth = max minWidth (fst (enforce_gap pos e other (candidate pos d e))),
                 otherWidth = snd (enforce_gap pos e other (candidate pos d e))\<rparr>"
  using assms by (simp add: handleMouseMove_def Let_def split_beta)

lemma candidate_ge: "minWidth \<le> candidate pos d e"
  by (simp add: candidate_def Let_def)

lemma candidate_le: "minWidth \<le> innerWidth e * 0.8 \<Longrightarrow> candidate pos d e \<le> innerWidth e * 0.8"
  by (cases pos) (auto simp: candidate_def Let_def max_def min_def)

lemma enforce_gap_fits:
  "\<not> breaks_gap pos e other w \<Longrightarrow> enforce_gap pos e other w = (w, None)"
  by (cases pos) (simp_all add: enforce_gap_def breaks_gap_def Let_def)

lemma enforce_gap_shrinks:
  "breaks_gap pos e other w \<Longrightarrow>
   otherPanelMinWidth \<le> otherOffsetWidth other - overlap_of pos e other w \<Longrightarrow>
   enforce_gap pos e other w = (w, Some (otherOffsetWidth other - overlap_of pos e other w))"
  by (cases pos) (simp_all add: enforce_gap_def breaks_gap_def overlap_of_def Let_def)

lemma enforce_gap_caps:
  assumes "breaks_gap pos e other w" and "otherOffsetWidth other = otherPanelMinWidth"
    and "layout_consistent pos e other"
  shows "enforce_gap pos e other w
         = (room pos e other - otherPanelMinWidth - gapBetweenPanels, None)"
  using assms
  by (cases pos)
    (auto simp: enforce_gap_def breaks_gap_def layout_consistent_def room_def Let_def
      otherPanelMinWidth_def gapBetweenPanels_def min_def)

lemma gap_after_fits:
  assumes "layout_consistent pos e other" and "\<not> breaks_gap pos e other w"
  shows "gapBetweenPanels \<le> gap_after pos e other \<lparr>thisWidth = w, otherWidth = None\<rparr>"
  using assms
  by (cases pos) (auto simp: layout_consistent_def breaks_gap_def gap_after_def)

lemma gap_after_shrinks:
  assumes "layout_consistent pos e other"
  shows "gap_after pos e other
           \<lparr>thisWidth = w, otherWidth = Some (otherOffsetWidth other - overlap_of pos e other w)\<rparr>
         = gapBetweenPanels"
  using assms
  by (cases pos) (auto simp: layout_consistent_def overlap_of_def gap_after_def)

lemma gap_after_caps:
  assumes "otherOffsetWidth other = otherPanelMinWidth"
    and "minWidth + gapBetweenPanels + otherPanelMinWidth \<le> room pos e other"
  shows "gap_after pos e other
           \<lparr>thisWidth = max minWidth (room pos e other - otherPanelMinWidth - gapBetweenPanels),
            otherWidth = None\<rparr>
         = gapBetweenPanels"
  using assms
  by (cases pos) (auto simp: room_def gap_after_def max_def)

lemma cap_le_candidate:
  assumes "breaks_gap pos e other w" and "otherOffsetWidth other = otherPanelMinWidth"
    and "layout_consistent pos e other" and "minWidth \<le> w"
  shows "max minWidth (room pos e other - otherPanelMinWidth - gapBetweenPanels) \<le> w"
  using assms
  by (cases pos) (auto simp: breaks_gap_def layout_consistent_def room_def max_def)

text \<open>
  C1, amended.  The candidate width of the dragged panel is clamped to at least 400 and,
  when 0.8 times the window width is at least 400, to at most that.  With the other panel
  open and the panels placed as the handler assumes:
  if the candidate leaves the gap of 100, it is applied and the gap holds;
  if it breaks the gap and the other panel can take the whole overlap without going below
  400, the other panel is shrunk by the overlap and the gap is exactly 100;
  if it breaks the gap and the other panel is at 400, the other panel is left alone and the
  dragged panel is capped, never above the candidate, and the gap is exactly 100 whenever
  the window leaves room for 400 + 100 + 400; in a narrower window the minimum width of
  400, applied last, wins over the gap.
  In a window 1200 wide with the right panel open at 400, dragging the left panel towards
  900 leaves it at 700.
\<close>

theorem drag_keeps_gap:
  "minWidth \<le> candidate pos d e
   \<and> (minWidth \<le> innerWidth e * 0.8 \<longrightarrow> candidate pos d e \<le> innerWidth e * 0.8)
   \<and> (isDragging d \<and> otherPanelContainer e = Some other \<and> hasOpenClass other
        \<and> layout_consistent pos e other \<longrightarrow>
      (\<not> breaks_gap pos e other (candidate pos d e) \<longrightarrow>
         handleMouseMove pos d e
           = Some \<lparr>thisWidth = candidate pos d e, otherWidth = None\<rparr>
         \<and> gapBetweenPanels
             \<le> gap_after pos e other \<lparr>thisWidth = candidate pos d e, otherWidth = None\<rparr>)
      \<and> (breaks_gap pos e other (candidate pos d e)
           \<and> otherPanelMinWidth
               \<le> otherOffsetWidth other - overlap_of pos e other (candidate pos d e) \<longrightarrow>
         handleMouseMove pos d e
           = Some \<lparr>thisWidth = candidate pos d e,
                   otherWidth = Some (otherOffsetWidth other
                                      - overlap_of pos e other (candidate pos d e))\<rparr>
         \<and> gap_after pos e other
              \<lparr>thisWidth = candidate pos d e,
               otherWidth = Some (otherOffsetWidth other
                                  - overlap_of pos e other (candidate pos d e))\<rparr>
             = gapBetweenPanels)
      \<and> (breaks_gap pos e other (candidate pos d e)
           \<and> otherOffsetWidth other = otherPanelMinWidth \<longrightarrow>
         handleMouseMove pos d e
           = Some \<lparr>thisWidth = max minWidth (room pos e other - otherPanelMinWidth
                                               - gapBetweenPanels),
                   otherWidth = None\<rparr>
         \<and> max minWidth (room pos e other - otherPanelMinWidth - gapBetweenPanels)
             \<le> candidate pos d e
         \<and> (minWidth + gapBetweenPanels + otherPanelMinWidth \<le> room pos e other \<longrightarrow>
              gap_after pos e other
                \<lparr>thisWidth = max minWidth (room pos e other - otherPanelMinWidth
                                            - gapBetweenPanels),
                 otherWidth = None\<rparr>
              = gapBetweenPanels)))
   \<and> handleMouseMove PanelLeft drag_left_from_400 (move_to 1200 400 900)
       = Some \<lparr>thisWidth = 700, otherWidth = None\<rparr>"
proof (intro conjI impI)
  show "minWidth \<le> candidate pos d e" by (rule candidate_ge)
next
  assume "minWidth \<le> innerWidth e * 0.8"
  then show "candidate pos d e \<le> innerWidth e * 0.8" by (rule candidate_le)
next
  assume h: "isDragging d \<and> otherPanelContainer e = Some other \<and> hasOpenClass other
             \<and> layout_consistent pos e other"
    and nb: "\<not> breaks_gap pos e other (candidate pos d e)"
  from h have hm: "handleMouseMove pos d e
      = Some \<lparr>thisWidth = max minWidth (fst (enforce_gap pos e other (candidate pos d e))),
              otherWidth = snd (enforce_gap pos e other (candidate pos d e))\<rparr>"
    by (intro handleMouseMove_open) simp_all
  show "handleMouseMove pos d e = Some \<lparr>thisWidth = candidate pos d e, otherWidth = None\<rparr>"
    unfolding hm enforce_gap_fits [OF nb] using candidate_ge [of pos d e] by simp
  from h nb show "gapBetweenPanels
      \<le> gap_after pos e other \<lparr>thisWidth = candidate pos d e, otherWidth = None\<rparr>"
    by (intro gap_after_fits) simp_all
next
  assume h: "isDragging d \<and> otherPanelContainer e = Some other \<and> hasOpenClass other
             \<and> layout_consistent pos e other"
    and b: "breaks_gap pos e other (candidate pos d e)
            \<and> otherPanelMinWidth
                \<le> otherOffsetWidth other - overlap_of pos e other (candidate pos d e)"
  from h have hm: "handleMouseMove pos d e
      = Some \<lparr>thisWidth = max minWidth (fst (enforce_gap pos e other (candidate pos d e))),
              otherWidth = snd (enforce_gap pos e other (candidate pos d e))\<rparr>"
    by (intro handleMouseMove_open) simp_all
  from b have eg: "enforce_gap pos e other (candidate pos d e)
      = (candidate pos d e,
         Some (otherOffsetWidth other - overlap_of pos e other (candidate pos d e)))"
    by (intro enforce_gap_shrinks) simp_all
  show "handleMouseMove pos d e
        = Some \<lparr>thisWidth = candidate pos d e,
                otherWidth = Some (otherOffsetWidth other
                                   - overlap_of pos e other (candidate pos d e))\<rparr>"
    unfolding hm eg using candidate_ge [of pos d e] by simp
  from h show "gap_after pos e other
      \<lparr>thisWidth = candidate pos d e,
       otherWidth = Some (otherOffsetWidth other - overlap_of pos e other (candidate pos d e))\<rparr>
      = gapBetweenPanels"
    by (intro gap_after_shrinks) simp
next
  assume h: "isDragging d \<and> otherPanelContainer e = Some other \<and> hasOpenClass other
             \<and> layout_consistent pos e other"
    and b: "breaks_gap pos e other (candidate pos d e)
            \<and> otherOffsetWidth other = otherPanelMinWidth"
  from h have hm: "handleMouseMove pos d e
      = Some \<lparr>thisWidth = max minWidth (fst (enforce_gap pos e other (candidate pos d e))),
              otherWidth = snd (enforce_gap pos e other (candidate pos d e))\<rparr>"
    by (intro handleMouseMove_open) simp_all
  from h b have eg: "enforce_gap pos e other (candidate pos d e)
      = (room pos e other - otherPanelMinWidth - gapBetweenPanels, None)"
    by (intro enforce_gap_caps) simp_all
  show "handleMouseMove pos d e
        = Some \<lparr>thisWidth = max minWidth (room pos e other - otherPanelMinWidth
                                            - gapBetweenPanels),
                otherWidth = None\<rparr>"
    unfolding hm eg by simp
  from h b candidate_ge [of pos d e]
  show "max minWidth (room pos e other - otherPanelMinWidth - gapBetweenPanels)
        \<le> candidate pos d e"
    by (intro cap_le_candidate) simp_all
  {
    assume "minWidth + gapBetweenPanels + otherPanelMinWidth \<le> room pos e other"
    with b show "gap_after pos e other
        \<lparr>thisWidth = max minWidth (room pos e other - otherPanelMinWidth - gapBetweenPanels),
         otherWidth = None\<rparr>
        = gapBetweenPanels"
      by (intro gap_after_caps) simp_all
  }
next
  show "handleMouseMove PanelLeft drag_left_from_400 (move_to 1200 400 900)
        = Some \<lparr>thisWidth = 700, otherWidth = None\<rparr>"
    by (simp add: handleMouseMove_def candidate_def enforce_gap_def drag_left_from_400_def
        move_to_def right_panel_def minWidth_def gapBetweenPanels_def otherPanelMinWidth_def
        Let_def)
qed

text \<open>
  C1, as the specification states it, fails: in a window 800 wide with the right panel
  open at its minimum of 400, the cap computed for the left panel is 300, the final
  \<^verbatim>\<open>Math.max(minWidth, newWidth)\<close> raises it to 400, and no gap is left.
\<close>

theorem drag_narrow_viewport_gap_lost:
  "hasOpenClass (right_panel 800 400)
   \<and> layout_consistent PanelLeft (move_to 800 400 500) (right_panel 800 400)
   \<and> otherOffsetWidth (right_panel 800 400) = 400
   \<and> handleMouseMove PanelLeft drag_left_from_400 (move_to 800 400 500)
       = Some \<lparr>thisWidth = 400, otherWidth = None\<rparr>
   \<and> gap_after PanelLeft (move_to 800 400 500) (right_panel 800 400)
        \<lparr>thisWidth = 400, otherWidth = None\<rparr> = 0"
  by (simp add: handleMouseMove_def candidate_def enforce_gap_def drag_left_from_400_def
      move_to_def right_panel_def minWidth_def gapBetweenPanels_def otherPanelMinWidth_def
      layout_consistent_def gap_after_def Let_def)

text \<open>
  The handler shrinks the other panel only when it can take the whole overlap.  With the
  right panel at 450 in a window 1200 wide, a move of the left panel towards 900 caps the
  left panel at 700, as if the right panel were at 400, and leaves the right panel at 450:
  the panels end 50 apart.
\<close>

lemma drag_other_panel_above_minimum:
  "layout_consistent PanelLeft (move_to 1200 450 900) (right_panel 1200 450)
   \<and> handleMouseMove PanelLeft drag_left_from_400 (move_to 1200 450 900)
       = Some \<lparr>thisWidth = 700, otherWidth = None\<rparr>
   \<and> gap_after PanelLeft (move_to 1200 450 900) (right_panel 1200 450)
        \<lparr>thisWidth = 700, otherWidth = None\<rparr> = 50"
  by (simp add: handleMouseMove_def candidate_def enforce_gap_def drag_left_from_400_def
      move_to_def right_panel_def minWidth_def gapBetweenPanels_def otherPanelMinWidth_def
      layout_consistent_def gap_after_def Let_def)

theorem drag_keeps_gap_witness:
  "isDragging drag_left_from_400
   \<and> minWidth \<le> innerWidth (move_to 1200 400 600) * 0.8
   \<and> otherPanelContainer (move_to 1200 400 600) = Some (right_panel 1200 400)
   \<and> hasOpenClass (right_panel 1200 400)
   \<and> layout_consistent PanelLeft (move_to 1200 400 600) (right_panel 1200 400)
   \<and> candidate PanelLeft drag_left_from_400 (move_to 1200 400 600) = 600
   \<and> \<not> breaks_gap PanelLeft (move_to 1200 400 600) (right_panel 1200 400) 600
   \<and> handleMouseMove PanelLeft drag_left_from_400 (move_to 1200 400 600)
       = Some \<lparr>thisWidth = 600, otherWidth = None\<rparr>
   \<and> breaks_gap PanelLeft (move_to 1200 600 650) (right_panel 1200 600) 650
   \<and> handleMouseMove PanelLeft drag_left_from_400 (move_to 1200 600 650)
       = Some \<lparr>thisWidth = 650, otherWidth = Some 450\<rparr>
   \<and> gap_after PanelLeft (move_to 1200 600 650) (right_panel 1200 600)
        \<lparr>thisWidth = 650, otherWidth = Some 450\<rparr> = 100
   \<and> breaks_gap PanelLeft (move_to 1200 400 900) (right_panel 1200 400) 900
   \<and> otherOffsetWidth (right_panel 1200 400) = otherPanelMinWidth
   \<and> minWidth + gapBetweenPanels + otherPanelMinWidth
       \<le> room PanelLeft (move_to 1200 400 900) (right_panel 1200 400)
   \<and> gap_after PanelLeft (move_to 1200 400 900) (right_panel 1200 400)
        \<lparr>thisWidth = 700, otherWidth = None\<rparr> = 100"
proof -
  let ?d = drag_left_from_400
  note defs = drag_left_from_400_def move_to_def right_panel_def minWidth_def
    gapBetweenPanels_def otherPanelMinWidth_def layout_consistent_def candidate_def
    breaks_gap_def overlap_of_def room_def Let_def
  have dr: "isDragging ?d" by (simp add: defs)
  have mw: "minWidth \<le> innerWidth (move_to 1200 400 600) * 0.8" by (simp add: defs)
  have o1: "otherPanelContainer (move_to 1200 400 600) = Some (right_panel 1200 400)"
    and o2: "otherPanelContainer (move_to 1200 600 650) = Some (right_panel 1200 600)"
    and o3: "otherPanelContainer (move_to 1200 400 900) = Some (right_panel 1200 400)"
    by (simp_all add: defs)
  have op: "hasOpenClass (right_panel 1200 400)" "hasOpenClass (right_panel 1200 600)"
    by (simp_all add: defs)
  have l1: "layout_consistent PanelLeft (move_to 1200 400 600) (right_panel 1200 400)"
    and l2: "layout_consistent PanelLeft (move_to 1200 600 650) (right_panel 1200 600)"
    and l3: "layout_consistent PanelLeft (move_to 1200 400 900) (right_panel 1200 400)"
    by (simp_all add: defs)
  have c1: "candidate PanelLeft ?d (move_to 1200 400 600) = 600"
    and c2: "candidate PanelLeft ?d (move_to 1200 600 650) = 650"
    and c3: "candidate PanelLeft ?d (move_to 1200 400 900) = 900"
    by (simp_all add: defs)
  have b1: "\<not> breaks_gap PanelLeft (move_to 1200 400 600) (right_panel 1200 400) 600"
    and b2: "breaks_gap PanelLeft (move_to 1200 600 650) (right_panel 1200 600) 650"
    and b3: "breaks_gap PanelLeft (move_to 1200 400 900) (right_panel 1200 400) 900"
    by (simp_all add: defs)
  have v2: "otherOffsetWidth (right_panel 1200 600)
              - overlap_of PanelLeft (move_to 1200 600 650) (right_panel 1200 600) 650 = 450"
    by (simp add: defs)
  have m2: "otherPanelMinWidth \<le> 450" by (simp add: defs)
  have w3: "otherOffsetWidth (right_panel 1200 400) = otherPanelMinWidth" by (simp add: defs)
  have r3: "minWidth + gapBetweenPanels + otherPanelMinWidth
            \<le> room PanelLeft (move_to 1200 400 900) (right_panel 1200 400)"
    by (simp add: defs)
  have v3: "max minWidth (room PanelLeft (move_to 1200 400 900) (right_panel 1200 400)
                           - otherPanelMinWidth - gapBetweenPanels) = 700"
    by (simp add: defs)
  have g: "gapBetweenPanels = 100" by (simp add: defs)
  note t1 = drag_keeps_gap [of PanelLeft ?d "move_to 1200 400 600" "right_panel 1200 400"]
  note t2 = drag_keeps_gap [of PanelLeft ?d "move_to 1200 600 650" "right_panel 1200 600"]
  note t3 = drag_keeps_gap [of PanelLeft ?d "move_to 1200 400 900" "right_panel 1200 400"]
  from t1 dr o1 op(1) l1 b1
  have r1: "handleMouseMove PanelLeft ?d (move_to 1200 400 600)
            = Some \<lparr>thisWidth = 600, otherWidth = None\<rparr>"
    unfolding c1 by blast
  from t2 dr o2 op(2) l2 b2 m2
  have "handleMouseMove PanelLeft ?d (move_to 1200 600 650)
          = Some \<lparr>thisWidth = 650, otherWidth = Some 450\<rparr>
        \<and> gap_after PanelLeft (move_to 1200 600 650) (right_panel 1200 600)
            \<lparr>thisWidth = 650, otherWidth = Some 450\<rparr> = gapBetweenPanels"
    unfolding c2 v2 by blast
  then have r2: "handleMouseMove PanelLeft ?d (move_to 1200 600 650)
          = Some \<lparr>thisWidth = 650, otherWidth = Some 450\<rparr>"
    and g2: "gap_after PanelLeft (move_to 1200 600 650) (right_panel 1200 600)
            \<lparr>thisWidth = 650, otherWidth = Some 450\<rparr> = 100"
    unfolding g by blast+
  from t3 dr o3 op(1) l3 b3 w3 r3
  have "gap_after PanelLeft (move_to 1200 400 900) (right_panel 1200 400)
            \<lparr>thisWidth = 700, otherWidth = None\<rparr> = gapBetweenPanels"
    unfolding c3 v3 by blast
  then have g3: "gap_after PanelLeft (move_to 1200 400 900) (right_panel 1200 400)
            \<lparr>thisWidth = 700, otherWidth = None\<rparr> = 100"
    unfolding g .
  from dr mw o1 op(1) l1 c1 b1 r1 b2 r2 g2 b3 w3 r3 g3 show ?thesis by blast
qed

end
